theory Spec2Isabelle
  imports Complex_Main "HOL-Library.Multiset"
begin

section \<open>The MVV data processor (scripts/ai-analysis/mvv\_data\_processor.py)\<close>

text \<open>
  A shallow embedding of the class \<open>MVVDataProcessor\<close>: the text cleaning, the
  combined text, the row transformer with its per-record \<open>try/except\<close>, the
  aggregator and the writer. Exceptions are values of a sum type, the instance
  fields are a record passed from method to method, printing is left out.
\<close>

subsection \<open>Python strings\<close>

text \<open>
  A Python \<open>str\<close> is a sequence of Unicode code points, so it is a list of
  naturals here (a \<open>char\<close> of HOL is a byte and cannot hold U+3001).
  \<open>ustr\<close> reads an ASCII literal.
\<close>

type_synonym pystr = "nat list"

definition ustr :: "string \<Rightarrow> pystr" where
  "ustr s = map of_char s"

text \<open>The two characters of \<open>text.replace(';', '\<dots>')\<close>: U+003B and U+3001.\<close>

definition semicolon :: nat where
  "semicolon = 0x3B"

definition fullwidth_comma :: nat where
  "fullwidth_comma = 0x3001"

text \<open>
  \<open>str.isspace\<close> of one character, as CPython decides it: the ASCII controls
  and space, and the Unicode characters of category Zs or bidirectional class
  WS, B or S.
\<close>

definition is_space :: "nat \<Rightarrow> bool" where
  "is_space c \<longleftrightarrow>
     (0x09 \<le> c \<and> c \<le> 0x0D) \<or> (0x1C \<le> c \<and> c \<le> 0x20) \<or> c = 0x85 \<or> c = 0xA0 \<or>
     c = 0x1680 \<or> (0x2000 \<le> c \<and> c \<le> 0x200A) \<or> c = 0x2028 \<or> c = 0x2029 \<or>
     c = 0x202F \<or> c = 0x205F \<or> c = 0x3000"

text \<open>\<open>s.strip()\<close>: whitespace removed from both ends.\<close>

definition py_strip :: "pystr \<Rightarrow> pystr" where
  "py_strip s = rev (dropWhile is_space (rev (dropWhile is_space s)))"

text \<open>\<open>s.replace(old, new)\<close> for one-character \<open>old\<close> and \<open>new\<close>.\<close>

definition py_replace :: "nat \<Rightarrow> nat \<Rightarrow> pystr \<Rightarrow> pystr" where
  "py_replace old new s = map (\<lambda>c. if c = old then new else c) s"

text \<open>\<open>sep.join(parts)\<close>.\<close>

fun py_join :: "pystr \<Rightarrow> pystr list \<Rightarrow> pystr" where
  "py_join sep [] = []"
| "py_join sep [p] = p"
| "py_join sep (p # q # ps) = p @ sep @ py_join sep (q # ps)"

text \<open>\<open>a and b\<close> on strings: the first operand when it is falsy (empty).\<close>

definition py_and :: "pystr \<Rightarrow> pystr \<Rightarrow> pystr" where
  "py_and a b = (if a = [] then a else b)"

definition py_bool :: "pystr \<Rightarrow> bool" where
  "py_bool s \<longleftrightarrow> s \<noteq> []"

text \<open>\<open>str(n)\<close> of a non-negative integer.\<close>

fun str_nat :: "nat \<Rightarrow> pystr" where
  "str_nat n = (if n < 10 then [0x30 + n] else str_nat (n div 10) @ [0x30 + n mod 10])"

declare str_nat.simps [simp del]

subsection \<open>Floats\<close>

text \<open>
  A \<open>float\<close> is a binary64 number: \<open>Fin neg m e\<close> is the finite number
  with sign \<open>neg\<close> and magnitude \<open>m * 2 ^ e\<close>, kept with \<open>m\<close> odd (zero is
  \<open>m = 0\<close>, \<open>e = 0\<close>, and has a sign), \<open>Inf neg\<close> an infinity, \<open>NaN\<close> the
  NaN. Two floats are then the same value exactly when they are the same term.
\<close>

datatype pyfloat = Fin bool nat int | Inf bool | NaN

abbreviation float_zero :: pyfloat where
  "float_zero \<equiv> Fin False 0 0"

text \<open>
  Rounding the fraction \<open>a / b\<close> to the nearest binary64 number, ties to the
  even significand: the significand has 53 bits down to the exponent
  \<open>-1074\<close> of the subnormal numbers, and a result of \<open>2 ^ 1024\<close> or more is an
  infinity. \<open>bitlen\<close> and \<open>declen\<close> count binary and decimal digits, and
  \<open>ilog_frac\<close> is the integer logarithm of \<open>a / b\<close> that goes with them.
\<close>

fun bitlen :: "nat \<Rightarrow> nat" where
  "bitlen n = (if n = 0 then 0 else Suc (bitlen (n div 2)))"

declare bitlen.simps [simp del]

fun declen :: "nat \<Rightarrow> nat" where
  "declen n = (if n = 0 then 0 else Suc (declen (n div 10)))"

declare declen.simps [simp del]

definition ilog_frac :: "(nat \<Rightarrow> nat) \<Rightarrow> nat \<Rightarrow> nat \<Rightarrow> int" where
  "ilog_frac len a b =
     (if b \<le> a then int (len (a div b)) - 1 else - int (len ((b + a - 1) div a - 1)))"

definition round_div :: "nat \<Rightarrow> nat \<Rightarrow> nat" where
  "round_div a b =
     (let f = a div b; r = a mod b
      in if 2 * r < b then f else if b < 2 * r then f + 1 else if even f then f else f + 1)"

fun odd_mantissa :: "nat \<Rightarrow> int \<Rightarrow> nat \<times> int" where
  "odd_mantissa m e =
     (if m = 0 then (0, 0) else if even m then odd_mantissa (m div 2) (e + 1) else (m, e))"

declare odd_mantissa.simps [simp del]

definition round64_frac :: "bool \<Rightarrow> nat \<Rightarrow> nat \<Rightarrow> pyfloat" where
  "round64_frac neg a b =
     (if a = 0 \<or> b = 0 then Fin neg 0 0
      else
        let e = max (ilog_frac bitlen a b - 52) (- 1074);
            m = (if 0 \<le> e then round_div a (b * 2 ^ nat e) else round_div (a * 2 ^ nat (- e)) b)
        in if 0 \<le> e \<and> 2 ^ 1024 \<le> m * 2 ^ nat e then Inf neg
           else (case odd_mantissa m e of (m', e') \<Rightarrow> Fin neg m' e'))"

definition round64 :: "bool \<Rightarrow> rat \<Rightarrow> pyfloat" where
  "round64 neg q = (let (a, b) = quotient_of q in round64_frac neg (nat \<bar>a\<bar>) (nat b))"

subsection \<open>The cells of a data frame\<close>

text \<open>
  What \<open>pd.read_csv\<close> leaves in a cell, and what \<open>row.get\<close> can return:
  \<^item> \<open>CStr s\<close>: a string (object columns, and the default \<open>''\<close>);
  \<^item> \<open>CNaN i\<close>: a missing value, the float NaN. \<open>i\<close> names the Python object:
    a dict finds a key by identity before equality, and NaN is not equal to itself;
  \<^item> \<open>CNum v s j\<close>: a finite number (an int, a float or a bool, of Python or
    of numpy, and the default \<open>0.0\<close>), given by what the program observes of
    it: its value \<open>v\<close>, its text \<open>s\<close> (what \<open>str\<close> returns) and what
    \<open>json.dump\<close> writes for it (\<open>None\<close> when it raises \<open>TypeError\<close>, as
    for a numpy integer);
  \<^item> \<open>CInf neg\<close>: a float infinity.
\<close>

datatype cell = CStr pystr | CNaN nat | CNum rat pystr "pystr option" | CInf bool

text \<open>
  The exceptions of the program, by class; messages are not modelled. A
  \<open>KeyError\<close> carries the key that was not found.
\<close>

datatype error =
  ValueError | KeyError cell | ZeroDivisionError | AttributeError | OSError |
  OverflowError | TypeError | UnicodeEncodeError

definition pd_isna :: "cell \<Rightarrow> bool" where
  "pd_isna c = (case c of CNaN _ \<Rightarrow> True | _ \<Rightarrow> False)"

definition py_str :: "cell \<Rightarrow> pystr" where
  "py_str c = (case c of
      CStr s \<Rightarrow> s
    | CNaN _ \<Rightarrow> ustr ''nan''
    | CNum _ s _ \<Rightarrow> s
    | CInf neg \<Rightarrow> (if neg then ustr ''-inf'' else ustr ''inf''))"

subsection \<open>\<open>float\<close> of a string and of a cell\<close>

text \<open>
  \<open>float(s)\<close> of a string, as CPython 3.11 (Unicode 14.0) computes it. First
  every character from 127 on is replaced: a whitespace character by a space, a
  decimal digit of any script by its ASCII digit, anything else by \<open>?\<close>.
  \<open>decimal_bases\<close> lists the zero digit of every run of decimal digits in
  Unicode. Then the whitespace of C (\<open>\t\n\v\f\r\<close> and the space) is stripped
  at both ends; the separators \<open>U+001C\<close> to \<open>U+001F\<close>, which \<open>str.strip\<close>
  removes, are not whitespace here.
\<close>

definition decimal_bases :: "nat list" where
  "decimal_bases =
    [0x30, 0x660, 0x6F0, 0x7C0, 0x966, 0x9E6, 0xA66, 0xAE6, 0xB66, 0xBE6, 0xC66,
     0xCE6, 0xD66, 0xDE6, 0xE50, 0xED0, 0xF20, 0x1040, 0x1090, 0x17E0, 0x1810,
     0x1946, 0x19D0, 0x1A80, 0x1A90, 0x1B50, 0x1BB0, 0x1C40, 0x1C50, 0xA620, 0xA8D0,
     0xA900, 0xA9D0, 0xA9F0, 0xAA50, 0xABF0, 0xFF10, 0x104A0, 0x10D30, 0x11066,
     0x110F0, 0x11136, 0x111D0, 0x112F0, 0x11450, 0x114D0, 0x11650, 0x116C0, 0x11730,
     0x118E0, 0x11950, 0x11C50, 0x11D50, 0x11DA0, 0x16A60, 0x16AC0, 0x16B50, 0x1D7CE,
     0x1D7D8, 0x1D7E2, 0x1D7EC, 0x1D7F6, 0x1E140, 0x1E2F0, 0x1E950, 0x1FBF0]"

definition to_decimal :: "nat \<Rightarrow> nat option" where
  "to_decimal c =
     (case find (\<lambda>b. b \<le> c \<and> c < b + 10) decimal_bases of
        None \<Rightarrow> None
      | Some b \<Rightarrow> Some (c - b))"

definition to_ascii :: "nat \<Rightarrow> nat" where
  "to_ascii c =
     (if c < 127 then c
      else if is_space c then 0x20
      else (case to_decimal c of None \<Rightarrow> 0x3F | Some d \<Rightarrow> 0x30 + d))"

definition c_isspace :: "nat \<Rightarrow> bool" where
  "c_isspace c \<longleftrightarrow> (0x09 \<le> c \<and> c \<le> 0x0D) \<or> c = 0x20"

text \<open>
  What is left must be an optional sign and either \<open>inf\<close>, \<open>infinity\<close> or
  \<open>nan\<close> (in any case) or a decimal number with an optional exponent, where
  single underscores may stand between digits. \<open>digitpart\<close> reads the digits
  of one part, \<open>decimal_value\<close> rounds the number read.
\<close>

definition is_digit :: "nat \<Rightarrow> bool" where
  "is_digit c \<longleftrightarrow> 0x30 \<le> c \<and> c \<le> 0x39"

fun digitpart :: "nat list \<Rightarrow> pystr \<Rightarrow> nat list \<times> pystr" where
  "digitpart acc [] = (acc, [])"
| "digitpart acc (c # cs) =
     (if is_digit c then digitpart (acc @ [c - 0x30]) cs
      else if c = 0x5F \<and> acc \<noteq> [] \<and> (case cs of [] \<Rightarrow> False | d # _ \<Rightarrow> is_digit d)
        then digitpart acc cs
      else (acc, c # cs))"

definition digits_value :: "nat list \<Rightarrow> nat" where
  "digits_value ds = foldl (\<lambda>a d. 10 * a + d) 0 ds"

definition to_lower :: "nat \<Rightarrow> nat" where
  "to_lower c = (if 0x41 \<le> c \<and> c \<le> 0x5A then c + 0x20 else c)"

definition take_sign :: "pystr \<Rightarrow> bool \<times> pystr" where
  "take_sign s = (case s of
      [] \<Rightarrow> (False, [])
    | c # cs \<Rightarrow> if c = 0x2D then (True, cs) else if c = 0x2B then (False, cs) else (False, s))"

definition decimal_value :: "bool \<Rightarrow> nat list \<Rightarrow> nat list \<Rightarrow> int \<Rightarrow> pyfloat" where
  "decimal_value neg ip fp e =
     (let d = digits_value (ip @ fp); x = e - int (length fp)
      in if 0 \<le> x then round64_frac neg (d * 10 ^ nat x) 1
         else round64_frac neg d (10 ^ nat (- x)))"

definition parse_float :: "pystr \<Rightarrow> pyfloat option" where
  "parse_float s =
     (let t0 = rev (dropWhile c_isspace (rev (dropWhile c_isspace (map to_ascii s))));
          (neg, t) = take_sign t0; l = map to_lower t in
      if l = ustr ''inf'' \<or> l = ustr ''infinity'' then Some (Inf neg)
      else if l = ustr ''nan'' then Some NaN
      else
        let (ip, r1) = digitpart [] t;
            (fp, r2) = (case r1 of
                [] \<Rightarrow> ([], [])
              | c # r \<Rightarrow> if c = 0x2E then digitpart [] r else ([], r1))
        in if ip = [] \<and> fp = [] then None
           else (case r2 of
               [] \<Rightarrow> Some (decimal_value neg ip fp 0)
             | c # r \<Rightarrow>
                 if c = 0x65 \<or> c = 0x45 then
                   (let (eneg, r3) = take_sign r; (ed, r4) = digitpart [] r3 in
                    if ed = [] \<or> r4 \<noteq> [] then None
                    else Some (decimal_value neg ip fp
                           (if eneg then - int (digits_value ed) else int (digits_value ed))))
                 else None))"

definition float_of_str :: "pystr \<Rightarrow> error + pyfloat" where
  "float_of_str s = (case parse_float s of None \<Rightarrow> Inl ValueError | Some x \<Rightarrow> Inr x)"

text \<open>
  \<open>float(x)\<close> of a cell. A number is rounded to binary64; a zero is the
  negative zero when its text starts with a minus sign. Only a Python int can
  be too large for a \<open>float\<close>, and then \<open>float\<close> raises \<open>OverflowError\<close>.
\<close>

definition py_float :: "cell \<Rightarrow> error + pyfloat" where
  "py_float c = (case c of
      CStr s \<Rightarrow> float_of_str s
    | CNaN _ \<Rightarrow> Inr NaN
    | CNum v s _ \<Rightarrow>
        (case round64 (v < 0 \<or> (v = 0 \<and> take 1 s = [0x2D])) v of
           Inf _ \<Rightarrow> Inl OverflowError
         | x \<Rightarrow> Inr x)
    | CInf neg \<Rightarrow> Inr (Inf neg))"

subsection \<open>\<open>repr\<close> of a float\<close>

text \<open>
  \<open>float.__repr__\<close>: the shortest string of digits that rounds back to the
  float and, among those, the one nearest to it. \<open>shortest\<close> tries 1 to 17
  digits for the number \<open>a / b\<close>, whose decimal exponent is \<open>k\<close>; with
  \<open>n\<close> digits only the two neighbours \<open>lo\<close> and \<open>hi\<close> of the number can
  round back to it. The digits are written with an exponent when the decimal
  point would stand more than 16 places to the right of the first digit or 4
  or more places to its left.
\<close>

fun strip_zeros :: "nat \<Rightarrow> int \<Rightarrow> nat \<times> int" where
  "strip_zeros d s =
     (if d \<noteq> 0 \<and> d mod 10 = 0 then strip_zeros (d div 10) (s + 1) else (d, s))"

declare strip_zeros.simps [simp del]

function shortest :: "nat \<Rightarrow> int \<Rightarrow> nat \<Rightarrow> nat \<Rightarrow> int \<Rightarrow> nat \<Rightarrow> nat \<times> int" where
  "shortest m e a b k n =
     (let s = k - (int n - 1);
          ta = (if 0 \<le> s then a else a * 10 ^ nat (- s));
          tb = (if 0 \<le> s then b * 10 ^ nat s else b);
          lo = ta div tb;
          hi = lo + 1;
          ok_lo = ((if 0 \<le> s then round64_frac False (lo * 10 ^ nat s) 1
                    else round64_frac False lo (10 ^ nat (- s))) = Fin False m e);
          ok_hi = ((if 0 \<le> s then round64_frac False (hi * 10 ^ nat s) 1
                    else round64_frac False hi (10 ^ nat (- s))) = Fin False m e)
      in if 17 \<le> n then (round_div ta tb, s)
         else if ok_lo \<and> ok_hi then (if 2 * (ta mod tb) \<le> tb then (lo, s) else (hi, s))
         else if ok_lo then (lo, s)
         else if ok_hi then (hi, s)
         else shortest m e a b k (Suc n))"
  by pat_completeness auto
termination
  by (relation "measure (\<lambda>(m, e, a, b, k, n). 17 - n)") auto

declare shortest.simps [simp del]

definition repr_positive :: "nat \<Rightarrow> int \<Rightarrow> pystr" where
  "repr_positive m e =
     (let a = (if 0 \<le> e then m * 2 ^ nat e else m);
          b = (if 0 \<le> e then 1 else 2 ^ nat (- e));
          (d0, s0) = shortest m e a b (ilog_frac declen a b) 1;
          (d, s) = strip_zeros d0 s0;
          ds = str_nat d;
          n = int (length ds);
          decpt = n + s
      in if decpt \<le> - 4 \<or> 16 < decpt then
           (let ex = decpt - 1;
                es = str_nat (nat \<bar>ex\<bar>)
            in take 1 ds @ (if 1 < n then [0x2E] @ drop 1 ds else []) @ [0x65] @
               [if ex < 0 then 0x2D else 0x2B] @ (if length es < 2 then [0x30] @ es else es))
         else if decpt \<le> 0 then
           ustr ''0.'' @ replicate (nat (- decpt)) 0x30 @ ds
         else if decpt < n then
           take (nat decpt) ds @ [0x2E] @ drop (nat decpt) ds
         else ds @ replicate (nat (decpt - n)) 0x30 @ ustr ''.0'')"

definition float_repr :: "pyfloat \<Rightarrow> pystr" where
  "float_repr x = (case x of
      NaN \<Rightarrow> ustr ''nan''
    | Inf neg \<Rightarrow> (if neg then ustr ''-inf'' else ustr ''inf'')
    | Fin neg m e \<Rightarrow>
        (if neg then [0x2D] else []) @ (if m = 0 then ustr ''0.0'' else repr_positive m e))"

subsection \<open>The data frame\<close>

text \<open>
  A data frame is its column names and its rows of cells; \<open>iterrows\<close> gives
  each row as a series indexed by the column names. \<open>row.get(key, default)\<close>
  returns the default when the frame has no such column.
\<close>

record dataframe =
  columns :: "string list"
  cells :: "cell list list"

type_synonym row = "(string \<times> cell) list"

definition iterrows :: "dataframe \<Rightarrow> row list" where
  "iterrows df = map (zip (columns df)) (cells df)"

definition row_get :: "row \<Rightarrow> string \<Rightarrow> cell \<Rightarrow> cell" where
  "row_get r key dflt = (case map_of r key of None \<Rightarrow> dflt | Some v \<Rightarrow> v)"

text \<open>\<open>self.data[key]\<close>: a \<open>KeyError\<close> when the frame has no such column.\<close>

definition getitem_column :: "dataframe \<Rightarrow> string \<Rightarrow> error + cell list" where
  "getitem_column df key =
     (if key \<in> set (columns df) then Inr (map (\<lambda>r. row_get r key (CNaN 0)) (iterrows df))
      else Inl (KeyError (CStr (ustr key))))"

subsection \<open>\<open>_clean_text\<close> and \<open>_create_combined_mvv\<close>\<close>

definition clean_text :: "cell \<Rightarrow> pystr" where
  "clean_text text =
     (if pd_isna text \<or> text = CStr [] then []
      else
        let t = py_strip (py_str text) in
        if semicolon \<in> set t then py_replace semicolon fullwidth_comma t else t)"

definition create_combined_mvv :: "pystr \<Rightarrow> pystr \<Rightarrow> pystr \<Rightarrow> pystr" where
  "create_combined_mvv mission vision vals =
     (let parts = [];
          parts = (if py_bool mission then parts @ [ustr ''Mission: '' @ mission] else parts);
          parts = (if py_bool vision then parts @ [ustr ''Vision: '' @ vision] else parts);
          parts = (if py_bool vals then parts @ [ustr ''Values: '' @ vals] else parts)
      in py_join (ustr '' | '') parts)"

subsection \<open>\<open>preprocess_mvv_data\<close>\<close>

record confidence =
  conf_mission :: pyfloat
  conf_vision :: pyfloat
  conf_values :: pyfloat

record company =
  company_id :: pystr
  name :: cell
  website :: cell
  category :: cell
  mission :: pystr
  vision :: pystr
  vals :: pystr
  combined_mvv :: pystr
  confidence_scores :: confidence
  extraction_source :: cell
  extracted_from :: cell
  has_complete_mvv :: bool

text \<open>
  The body of the \<open>try\<close> for one row: the only statements that can raise are
  the three \<open>float\<close> conversions, taken in the order of the dict literal.
\<close>

definition process_row :: "nat \<Rightarrow> row \<Rightarrow> error + company" where
  "process_row idx r =
     (let mission = clean_text (row_get r ''mission'' (CStr []));
          vision = clean_text (row_get r ''vision'' (CStr []));
          vals = clean_text (row_get r ''values'' (CStr []));
          combined = create_combined_mvv mission vision vals
      in case py_float (row_get r ''missionConfidence'' (CNum 0 (ustr ''0.0'') (Some (ustr ''0.0'')))) of
           Inl e \<Rightarrow> Inl e
         | Inr cm \<Rightarrow>
        (case py_float (row_get r ''visionConfidence'' (CNum 0 (ustr ''0.0'') (Some (ustr ''0.0'')))) of
           Inl e \<Rightarrow> Inl e
         | Inr cv \<Rightarrow>
        (case py_float (row_get r ''valuesConfidence'' (CNum 0 (ustr ''0.0'') (Some (ustr ''0.0'')))) of
           Inl e \<Rightarrow> Inl e
         | Inr cw \<Rightarrow>
           Inr \<lparr> company_id = ustr ''company_'' @ str_nat (idx + 1),
                 name = row_get r ''companyName'' (CStr []),
                 website = row_get r ''website'' (CStr []),
                 category = row_get r ''category'' (CStr []),
                 mission = mission,
                 vision = vision,
                 vals = vals,
                 combined_mvv = combined,
                 confidence_scores =
                   \<lparr> conf_mission = cm, conf_vision = cv, conf_values = cw \<rparr>,
                 extraction_source = row_get r ''extractionSource'' (CStr []),
                 extracted_from = row_get r ''extractedFrom'' (CStr []),
                 has_complete_mvv = py_bool (py_and (py_and mission vision) vals) \<rparr>)))"

text \<open>
  The loop over \<open>iterrows\<close>: \<open>idx\<close> is the row's label in the default index
  \<open>0, 1, \<dots>\<close>, \<open>acc\<close> is \<open>processed_companies\<close>. A row whose processing
  raises is skipped by the \<open>except\<close> clause.
\<close>

fun preprocess_loop :: "nat \<Rightarrow> row list \<Rightarrow> company list \<Rightarrow> company list" where
  "preprocess_loop idx [] acc = acc"
| "preprocess_loop idx (r # rs) acc =
     (case process_row idx r of
        Inr c \<Rightarrow> preprocess_loop (idx + 1) rs (acc @ [c])
      | Inl e \<Rightarrow> preprocess_loop (idx + 1) rs acc)"

subsection \<open>The processor object, \<open>load_data\<close> and \<open>_print_basic_stats\<close>\<close>

record processor =
  data :: "dataframe option"
  processed_data :: "company list option"

text \<open>\<open>__init__\<close>: both fields are \<open>None\<close>.\<close>

definition MVVDataProcessor :: processor where
  "MVVDataProcessor = \<lparr> data = None, processed_data = None \<rparr>"

text \<open>
  \<open>_print_basic_stats\<close> only prints, but it can raise: it indexes the columns
  \<open>status\<close>, \<open>category\<close>, \<open>mission\<close>, \<open>vision\<close> and \<open>values\<close> directly,
  in this order, and then divides by the number of rows.
\<close>

definition print_basic_stats :: "dataframe \<Rightarrow> error + unit" where
  "print_basic_stats df =
     (case getitem_column df ''status'' of Inl e \<Rightarrow> Inl e | Inr _ \<Rightarrow>
     (case getitem_column df ''category'' of Inl e \<Rightarrow> Inl e | Inr _ \<Rightarrow>
     (case getitem_column df ''mission'' of Inl e \<Rightarrow> Inl e | Inr _ \<Rightarrow>
     (case getitem_column df ''vision'' of Inl e \<Rightarrow> Inl e | Inr _ \<Rightarrow>
     (case getitem_column df ''values'' of Inl e \<Rightarrow> Inl e | Inr _ \<Rightarrow>
        if length (cells df) = 0 then Inl ZeroDivisionError else Inr ())))))"

text \<open>
  \<open>load_data\<close>: \<open>csv\<close> is what \<open>pd.read_csv\<close> returned or raised. Every
  exception is printed and raised again.
\<close>

definition load_data :: "processor \<Rightarrow> error + dataframe \<Rightarrow> error + processor" where
  "load_data self csv =
     (case csv of
        Inl e \<Rightarrow> Inl e
      | Inr df \<Rightarrow>
          (case print_basic_stats df of
             Inl e \<Rightarrow> Inl e
           | Inr _ \<Rightarrow> Inr (self\<lparr>data := Some df\<rparr>)))"

definition preprocess_mvv_data :: "processor \<Rightarrow> error + processor" where
  "preprocess_mvv_data self =
     (case data self of
        None \<Rightarrow> Inl AttributeError
      | Some df \<Rightarrow> Inr (self\<lparr>processed_data := Some (preprocess_loop 0 (iterrows df) [])\<rparr>))"

subsection \<open>Dictionaries keyed by cells\<close>

text \<open>
  A \<open>dict\<close> keeps its keys in insertion order, so it is an association list.
  Two keys are the same when they are the same object or compare equal:
  strings by their text, numbers by their value, a NaN only with itself.
\<close>

fun key_eq :: "cell \<Rightarrow> cell \<Rightarrow> bool" where
  "key_eq (CStr s) (CStr t) = (s = t)"
| "key_eq (CNaN i) (CNaN j) = (i = j)"
| "key_eq (CNum v _ _) (CNum w _ _) = (v = w)"
| "key_eq (CInf a) (CInf b) = (a = b)"
| "key_eq _ _ = False"

type_synonym 'v pydict = "(cell \<times> 'v) list"

fun dict_contains :: "'v pydict \<Rightarrow> cell \<Rightarrow> bool" where
  "dict_contains [] k = False"
| "dict_contains ((k', v) # d) k = (key_eq k' k \<or> dict_contains d k)"

fun dict_getitem :: "'v pydict \<Rightarrow> cell \<Rightarrow> error + 'v" where
  "dict_getitem [] k = Inl (KeyError k)"
| "dict_getitem ((k', v) # d) k = (if key_eq k' k then Inr v else dict_getitem d k)"

fun dict_setitem :: "'v pydict \<Rightarrow> cell \<Rightarrow> 'v \<Rightarrow> 'v pydict" where
  "dict_setitem [] k v = [(k, v)]"
| "dict_setitem ((k', v') # d) k v =
     (if key_eq k' k then (k', v) # d else (k', v') # dict_setitem d k v)"

subsection \<open>\<open>json.dump\<close>\<close>

text \<open>
  The objects that reach \<open>json.dump\<close>: strings, ints, bools, floats, cells,
  lists, and dicts whose keys are strings or cells.
\<close>

datatype pykey = KStr pystr | KCell cell

datatype pyobj =
  OStr pystr | OInt int | OBool bool | OFloat pyfloat | OCell cell |
  OList "pyobj list" | ODict "(pykey \<times> pyobj) list"

text \<open>
  A string between double quotes, as \<open>ensure_ascii=False\<close> writes it: only
  the quote, the backslash and the control characters are escaped.
\<close>

definition hex_digit :: "nat \<Rightarrow> nat" where
  "hex_digit d = (if d < 10 then 0x30 + d else 0x61 + (d - 10))"

definition escape_char :: "nat \<Rightarrow> pystr" where
  "escape_char c =
     (if c = 0x22 then [0x5C, 0x22]
      else if c = 0x5C then [0x5C, 0x5C]
      else if c = 0x0A then [0x5C, 0x6E]
      else if c = 0x0D then [0x5C, 0x72]
      else if c = 0x09 then [0x5C, 0x74]
      else if c = 0x08 then [0x5C, 0x62]
      else if c = 0x0C then [0x5C, 0x66]
      else if c < 0x20 then [0x5C, 0x75, 0x30, 0x30, hex_digit (c div 16), hex_digit (c mod 16)]
      else [c])"

definition encode_basestring :: "pystr \<Rightarrow> pystr" where
  "encode_basestring s = [0x22] @ concat (map escape_char s) @ [0x22]"

definition str_int :: "int \<Rightarrow> pystr" where
  "str_int i = (if i < 0 then [0x2D] @ str_nat (nat (- i)) else str_nat (nat i))"

definition encode_float :: "pyfloat \<Rightarrow> pystr" where
  "encode_float x = (case x of
      NaN \<Rightarrow> ustr ''NaN''
    | Inf neg \<Rightarrow> (if neg then ustr ''-Infinity'' else ustr ''Infinity'')
    | Fin neg m e \<Rightarrow> float_repr x)"

text \<open>A cell as a value, and the text of a key before it is quoted.\<close>

definition encode_cell :: "cell \<Rightarrow> error + pystr" where
  "encode_cell c = (case c of
      CStr s \<Rightarrow> Inr (encode_basestring s)
    | CNaN _ \<Rightarrow> Inr (ustr ''NaN'')
    | CNum _ _ j \<Rightarrow> (case j of None \<Rightarrow> Inl TypeError | Some t \<Rightarrow> Inr t)
    | CInf neg \<Rightarrow> Inr (if neg then ustr ''-Infinity'' else ustr ''Infinity''))"

definition key_text :: "pykey \<Rightarrow> error + pystr" where
  "key_text k = (case k of
      KStr s \<Rightarrow> Inr s
    | KCell c \<Rightarrow> (case c of
          CStr s \<Rightarrow> Inr s
        | CNaN _ \<Rightarrow> Inr (ustr ''NaN'')
        | CNum _ _ j \<Rightarrow> (case j of None \<Rightarrow> Inl TypeError | Some t \<Rightarrow> Inr t)
        | CInf neg \<Rightarrow> Inr (if neg then ustr ''-Infinity'' else ustr ''Infinity'')))"

text \<open>
  The encoder yields its output in chunks and \<open>f.write\<close> encodes each chunk
  as UTF-8, which fails on a surrogate. \<open>write_chunk\<close> is one chunk, \<open>andthen\<close>
  the chunks of one part followed by those of the next: the first failure
  ends the run.
\<close>

definition writable :: "pystr \<Rightarrow> bool" where
  "writable s \<longleftrightarrow> list_all (\<lambda>c. c < 0xD800 \<or> (0xE000 \<le> c \<and> c < 0x110000)) s"

definition write_chunk :: "pystr \<Rightarrow> error + pystr" where
  "write_chunk s = (if writable s then Inr s else Inl UnicodeEncodeError)"

definition andthen :: "error + pystr \<Rightarrow> error + pystr \<Rightarrow> error + pystr" where
  "andthen a b =
     (case a of
        Inl e \<Rightarrow> Inl e
      | Inr x \<Rightarrow> (case b of Inl e \<Rightarrow> Inl e | Inr y \<Rightarrow> Inr (x @ y)))"

definition newline_indent :: "nat \<Rightarrow> pystr" where
  "newline_indent lvl = [0x0A] @ replicate (2 * lvl) 0x20"

text \<open>
  \<open>_iterencode\<close> with \<open>indent=2\<close>, at the indent level \<open>lvl\<close>. The flag
  \<open>first\<close> of the loops over the items says whether a separator is due.
\<close>

fun iterencode :: "nat \<Rightarrow> pyobj \<Rightarrow> error + pystr"
  and iterencode_list :: "nat \<Rightarrow> bool \<Rightarrow> pyobj list \<Rightarrow> error + pystr"
  and iterencode_dict :: "nat \<Rightarrow> bool \<Rightarrow> (pykey \<times> pyobj) list \<Rightarrow> error + pystr" where
  "iterencode lvl (OStr s) = write_chunk (encode_basestring s)"
| "iterencode lvl (OInt i) = write_chunk (str_int i)"
| "iterencode lvl (OBool b) = write_chunk (if b then ustr ''true'' else ustr ''false'')"
| "iterencode lvl (OFloat x) = write_chunk (encode_float x)"
| "iterencode lvl (OCell c) = (case encode_cell c of Inl e \<Rightarrow> Inl e | Inr t \<Rightarrow> write_chunk t)"
| "iterencode lvl (OList xs) =
     (if xs = [] then write_chunk (ustr ''[]'')
      else andthen (write_chunk ([0x5B] @ newline_indent (lvl + 1)))
             (andthen (iterencode_list (lvl + 1) True xs)
                (write_chunk (newline_indent lvl @ [0x5D]))))"
| "iterencode lvl (ODict ps) =
     (if ps = [] then write_chunk (ustr ''{}'')
      else andthen (write_chunk ([0x7B] @ newline_indent (lvl + 1)))
             (andthen (iterencode_dict (lvl + 1) True ps)
                (write_chunk (newline_indent lvl @ [0x7D]))))"
| "iterencode_list lvl first [] = Inr []"
| "iterencode_list lvl first (x # xs) =
     andthen (write_chunk (if first then [] else [0x2C] @ newline_indent lvl))
       (andthen (iterencode lvl x) (iterencode_list lvl False xs))"
| "iterencode_dict lvl first [] = Inr []"
| "iterencode_dict lvl first (kv # ps) =
     (case key_text (fst kv) of
        Inl e \<Rightarrow> Inl e
      | Inr t \<Rightarrow>
          andthen (write_chunk (if first then [] else [0x2C] @ newline_indent lvl))
            (andthen (write_chunk (encode_basestring t))
               (andthen (write_chunk (ustr '': ''))
                  (andthen (iterencode lvl (snd kv)) (iterencode_dict lvl False ps)))))"

text \<open>The text is written to the file in UTF-8.\<close>

definition utf8_char :: "nat \<Rightarrow> nat list" where
  "utf8_char c =
     (if c < 0x80 then [c]
      else if c < 0x800 then [0xC0 + c div 0x40, 0x80 + c mod 0x40]
      else if c < 0x10000 then
        [0xE0 + c div 0x1000, 0x80 + c div 0x40 mod 0x40, 0x80 + c mod 0x40]
      else [0xF0 + c div 0x40000, 0x80 + c div 0x1000 mod 0x40, 0x80 + c div 0x40 mod 0x40,
            0x80 + c mod 0x40])"

definition utf8_encode :: "pystr \<Rightarrow> nat list" where
  "utf8_encode s = concat (map utf8_char s)"

subsection \<open>\<open>get_analysis_ready_data\<close>, \<open>save_processed_data\<close> and \<open>main\<close>\<close>

text \<open>
  The grouping loop. \<open>by_category[category].append(company)\<close> is a lookup
  followed by the update of the list found.
\<close>

fun group_by_category ::
  "company list pydict \<Rightarrow> company list \<Rightarrow> error + company list pydict" where
  "group_by_category d [] = Inr d"
| "group_by_category d (c # cs) =
     (let k = category c;
          d1 = (if \<not> dict_contains d k then dict_setitem d k [] else d)
      in case dict_getitem d1 k of
           Inl e \<Rightarrow> Inl e
         | Inr l \<Rightarrow> group_by_category (dict_setitem d1 k (l @ [c])) cs)"

record analysis_bundle =
  total_companies :: nat
  complete_mvv_companies :: nat
  companies :: "company list"
  by_category :: "company list pydict"
  categories :: "cell list"
  processed_at :: string

text \<open>\<open>now\<close> is \<open>datetime.now().isoformat()\<close>, the one reading of the clock.\<close>

definition get_analysis_ready_data :: "processor \<Rightarrow> string \<Rightarrow> error + analysis_bundle" where
  "get_analysis_ready_data self now =
     (case processed_data self of
        None \<Rightarrow> Inl ValueError
      | Some pd \<Rightarrow>
          if pd = [] then Inl ValueError
          else
            let complete = filter has_complete_mvv pd in
            (case group_by_category [] complete of
               Inl e \<Rightarrow> Inl e
             | Inr by_cat \<Rightarrow>
                 Inr \<lparr> total_companies = length pd,
                       complete_mvv_companies = length complete,
                       companies = complete,
                       by_category = by_cat,
                       categories = map fst by_cat,
                       processed_at = now \<rparr>))"

text \<open>
  The dict of a company and the dict \<open>analysis_data\<close>, with their keys in
  insertion order, and \<open>json.dump(analysis_data, f, ensure_ascii=False,
  indent=2)\<close> into a file that could be opened: the bytes written, or the
  exception raised on the way.
\<close>

definition company_obj :: "company \<Rightarrow> pyobj" where
  "company_obj c =
     ODict
       [(KStr (ustr ''id''), OStr (company_id c)),
        (KStr (ustr ''name''), OCell (name c)),
        (KStr (ustr ''website''), OCell (website c)),
        (KStr (ustr ''category''), OCell (category c)),
        (KStr (ustr ''mission''), OStr (mission c)),
        (KStr (ustr ''vision''), OStr (vision c)),
        (KStr (ustr ''values''), OStr (vals c)),
        (KStr (ustr ''combined_mvv''), OStr (combined_mvv c)),
        (KStr (ustr ''confidence_scores''),
           ODict
             [(KStr (ustr ''mission''), OFloat (conf_mission (confidence_scores c))),
              (KStr (ustr ''vision''), OFloat (conf_vision (confidence_scores c))),
              (KStr (ustr ''values''), OFloat (conf_values (confidence_scores c)))]),
        (KStr (ustr ''extraction_source''), OCell (extraction_source c)),
        (KStr (ustr ''extracted_from''), OCell (extracted_from c)),
        (KStr (ustr ''has_complete_mvv''), OBool (has_complete_mvv c))]"

definition bundle_obj :: "analysis_bundle \<Rightarrow> pyobj" where
  "bundle_obj b =
     ODict
       [(KStr (ustr ''total_companies''), OInt (int (total_companies b))),
        (KStr (ustr ''complete_mvv_companies''), OInt (int (complete_mvv_companies b))),
        (KStr (ustr ''companies''), OList (map company_obj (companies b))),
        (KStr (ustr ''by_category''),
           ODict (map (\<lambda>(k, cs). (KCell k, OList (map company_obj cs))) (by_category b))),
        (KStr (ustr ''categories''), OList (map OCell (categories b))),
        (KStr (ustr ''processed_at''), OStr (ustr (processed_at b)))]"

definition json_dump :: "analysis_bundle \<Rightarrow> error + nat list" where
  "json_dump b =
     (case iterencode 0 (bundle_obj b) of
        Inl e \<Rightarrow> Inl e
      | Inr text \<Rightarrow> Inr (utf8_encode text))"

text \<open>
  \<open>save_processed_data\<close>: \<open>dump\<close> is \<open>open\<close> followed by \<open>json.dump\<close>,
  giving what is written to the file, or the exception raised; it is
  \<open>json_dump\<close> when the file can be opened and written. The result is the
  content of the output file.
\<close>

definition save_processed_data ::
  "(analysis_bundle \<Rightarrow> error + 'o) \<Rightarrow> processor \<Rightarrow> string \<Rightarrow> error + 'o" where
  "save_processed_data dump self now =
     (case get_analysis_ready_data self now of
        Inl e \<Rightarrow> Inl e
      | Inr analysis_data \<Rightarrow> dump analysis_data)"

text \<open>The three calls of \<open>main\<close>, and its exit status.\<close>

definition run_pipeline ::
  "error + dataframe \<Rightarrow> string \<Rightarrow> (analysis_bundle \<Rightarrow> error + 'o) \<Rightarrow> error + 'o" where
  "run_pipeline csv now dump =
     (case load_data MVVDataProcessor csv of
        Inl e \<Rightarrow> Inl e
      | Inr p1 \<Rightarrow>
          (case preprocess_mvv_data p1 of
             Inl e \<Rightarrow> Inl e
           | Inr p2 \<Rightarrow> save_processed_data dump p2 now))"

definition main :: "error + dataframe \<Rightarrow> string \<Rightarrow> (analysis_bundle \<Rightarrow> error + 'o) \<Rightarrow> nat" where
  "main csv now dump = (case run_pipeline csv now dump of Inl e \<Rightarrow> 1 | Inr _ \<Rightarrow> 0)"

subsection \<open>Notions of the specification\<close>

text \<open>
  A cleaned string, in the words of the specification: no semicolon, and no
  whitespace at either end.
\<close>

definition cleaned :: "pystr \<Rightarrow> bool" where
  "cleaned s \<longleftrightarrow>
     semicolon \<notin> set s \<and> (s = [] \<or> (\<not> is_space (hd s) \<and> \<not> is_space (last s)))"


text \<open>
  The bytes of the key \<open>processed_at\<close> with its value, as they stand in the
  output file.
\<close>

definition processed_at_field :: "string \<Rightarrow> nat list" where
  "processed_at_field t =
     utf8_encode (encode_basestring (ustr ''processed_at'') @ ustr '': '' @
                  encode_basestring (ustr t))"

text \<open>What one raw record contributes to the output: its company, or nothing.\<close>

definition emitted :: "nat \<times> row \<Rightarrow> company option" where
  "emitted ir = (case process_row (fst ir) (snd ir) of Inl e \<Rightarrow> None | Inr c \<Rightarrow> Some c)"

subsection \<open>Auxiliary notions for the grouping loop\<close>

text \<open>
  One round of the grouping loop seen as a single update: the company goes to
  the end of the list of its category, behind a new key when there is none.
\<close>

fun dict_append :: "'a list pydict \<Rightarrow> cell \<Rightarrow> 'a \<Rightarrow> 'a list pydict" where
  "dict_append [] k x = [(k, [x])]"
| "dict_append ((k', l) # d) k x =
     (if key_eq k' k then (k', l @ [x]) # d else (k', l) # dict_append d k x)"

text \<open>
  A dictionary that groups the companies \<open>xs\<close>: no two keys are the same,
  every key holds exactly the companies of its category, in the order of
  \<open>xs\<close>, and every category met has a key.
\<close>

definition grouped :: "company list pydict \<Rightarrow> company list \<Rightarrow> bool" where
  "grouped d xs \<longleftrightarrow>
     sorted_wrt (\<lambda>a b. \<not> key_eq (fst a) (fst b)) d \<and>
     (\<forall>(k, l) \<in> set d. l = filter (\<lambda>c. key_eq k (category c)) xs \<and> l \<noteq> []) \<and>
     (\<forall>c \<in> set xs. dict_contains d (category c))"

subsection \<open>Sample data\<close>

text \<open>
  A small frame as \<open>pd.read_csv\<close> gives it: strings in the object columns,
  NaN for the empty cells. Company C has no vision, and the confidence of
  company D is not a number.
\<close>

definition sample_frame :: dataframe where
  "sample_frame =
     \<lparr> columns = [''companyName'', ''category'', ''status'', ''mission'', ''vision'', ''values'',
                  ''missionConfidence''],
       cells =
         [[CStr (ustr ''A''), CStr (ustr ''IT''), CStr (ustr ''completed''), CStr (ustr ''Go''),
           CStr (ustr ''See far''), CStr (ustr ''Honesty; Care''), CStr (ustr ''0.9'')],
          [CStr (ustr ''B''), CStr (ustr ''Med''), CStr (ustr ''completed''), CStr (ustr ''Heal''),
           CStr (ustr ''Health''), CStr (ustr ''Care''), CNaN 0],
          [CStr (ustr ''C''), CStr (ustr ''IT''), CStr (ustr ''completed''), CStr (ustr ''Build''),
           CNaN 0, CStr (ustr ''Trust''), CStr (ustr ''0.8'')],
          [CStr (ustr ''D''), CStr (ustr ''IT''), CStr (ustr ''completed''), CStr (ustr ''Run''),
           CStr (ustr ''Win''), CStr (ustr ''Team''), CStr (ustr ''abc'')],
          [CStr (ustr ''E''), CStr (ustr ''IT''), CStr (ustr ''completed''), CStr (ustr ''Make''),
           CStr (ustr ''Lead''), CStr (ustr ''Craft''), CStr (ustr ''0.5'')]] \<rparr>"

text \<open>The processor after \<open>load_data\<close> and \<open>preprocess_mvv_data\<close> on that frame.\<close>

definition sample_processor :: processor where
  "sample_processor =
     \<lparr> data = Some sample_frame,
       processed_data = Some (preprocess_loop 0 (iterrows sample_frame) []) \<rparr>"

text \<open>A frame read from a CSV file that has no \<open>values\<close> column.\<close>

definition frame_without_values :: dataframe where
  "frame_without_values =
     \<lparr> columns = [''companyName'', ''category'', ''status'', ''mission'', ''vision''],
       cells = [[CStr (ustr ''A''), CStr (ustr ''IT''), CStr (ustr ''completed''),
                 CStr (ustr ''Go''), CStr (ustr ''See far'')]] \<rparr>"

text \<open>A row whose \<open>missionConfidence\<close> is the string \<open>"abc"\<close>, and a complete row.\<close>

definition unparseable_row :: row where
  "unparseable_row =
     [(''companyName'', CStr (ustr ''A'')), (''missionConfidence'', CStr (ustr ''abc''))]"

definition complete_row :: row where
  "complete_row =
     [(''companyName'', CStr (ustr ''B'')), (''category'', CStr (ustr ''Med'')),
      (''mission'', CStr (ustr ''Heal'')), (''vision'', CStr (ustr ''Health'')),
      (''values'', CStr (ustr ''Care; Trust'')), (''missionConfidence'', CStr (ustr ''0.9''))]"

text \<open>A frame with every column the statistics read, whose only record is unparseable.\<close>

definition unparseable_frame :: dataframe where
  "unparseable_frame =
     \<lparr> columns = [''companyName'', ''category'', ''status'', ''mission'', ''vision'', ''values'',
                  ''missionConfidence''],
       cells =
         [[CStr (ustr ''D''), CStr (ustr ''IT''), CStr (ustr ''completed''), CStr (ustr ''Run''),
           CStr (ustr ''Win''), CStr (ustr ''Team''), CStr (ustr ''abc'')]] \<rparr>"

text \<open>A frame of one complete record, without confidence columns.\<close>

definition small_frame :: dataframe where
  "small_frame =
     \<lparr> columns = [''companyName'', ''category'', ''status'', ''mission'', ''vision'', ''values''],
       cells =
         [[CStr (ustr ''A''), CStr (ustr ''IT''), CStr (ustr ''completed''), CStr (ustr ''Go''),
           CStr (ustr ''See far''), CStr (ustr ''Honesty; Care'')]] \<rparr>"

text \<open>The definitions that evaluating the program on the sample data unfolds.\<close>

lemmas float_defs =
  float_of_str_def parse_float_def to_ascii_def to_decimal_def decimal_bases_def c_isspace_def
  is_space_def take_sign_def to_lower_def is_digit_def decimal_value_def digits_value_def
  round64_def round64_frac_def ilog_frac_def round_div_def bitlen.simps odd_mantissa.simps
  py_float_def ustr_def Let_def

lemmas run_defs =
  get_analysis_ready_data_def run_pipeline_def load_data_def print_basic_stats_def
  getitem_column_def preprocess_mvv_data_def save_processed_data_def MVVDataProcessor_def
  sample_processor_def sample_frame_def complete_row_def unparseable_row_def
  unparseable_frame_def small_frame_def iterrows_def
  process_row_def row_get_def clean_text_def create_combined_mvv_def pd_isna_def py_str_def
  py_strip_def py_replace_def semicolon_def fullwidth_comma_def
  py_bool_def py_and_def float_defs

lemmas json_defs =
  json_dump_def bundle_obj_def company_obj_def key_text_def encode_cell_def encode_float_def
  float_repr_def encode_basestring_def escape_char_def hex_digit_def str_int_def str_nat.simps
  write_chunk_def writable_def andthen_def newline_indent_def utf8_encode_def utf8_char_def

section \<open>Text cleaning\<close>

lemma py_replace_absent: "old \<notin> set s \<Longrightarrow> py_replace old new s = s"
  by (induction s) (auto simp: py_replace_def)

lemma py_replace_removes: "old \<noteq> new \<Longrightarrow> old \<notin> set (py_replace old new s)"
  by (auto simp: py_replace_def)

lemma semicolon_not_comma: "semicolon \<noteq> fullwidth_comma"
  by (simp add: semicolon_def fullwidth_comma_def)

lemma not_space_comma: "\<not> is_space fullwidth_comma"
  by (simp add: fullwidth_comma_def is_space_def)

lemma py_strip_edges:
  "py_strip s = [] \<or> (\<not> is_space (hd (py_strip s)) \<and> \<not> is_space (last (py_strip s)))"
proof -
  define t where "t = dropWhile is_space s"
  define u where "u = dropWhile is_space (rev t)"
  have ps: "py_strip s = rev u" by (simp add: py_strip_def t_def u_def)
  show ?thesis
  proof (cases "u = []")
    case True then show ?thesis by (simp add: ps)
  next
    case False
    then have hu: "\<not> is_space (hd u)" unfolding u_def by (metis hd_dropWhile)
    have "rev t \<noteq> []" using False u_def by auto
    then have tne: "t \<noteq> []" by simp
    then have ht: "\<not> is_space (hd t)" unfolding t_def by (metis hd_dropWhile)
    obtain p where "rev t = p @ u" unfolding u_def by (metis takeWhile_dropWhile_id)
    then have "last u = last (rev t)" using False by simp
    then have "last u = hd t" using tne by (simp add: last_rev)
    then show ?thesis using hu ht False by (simp add: ps hd_rev last_rev)
  qed
qed

lemma dropWhile_fixed: "xs \<noteq> [] \<Longrightarrow> \<not> P (hd xs) \<Longrightarrow> dropWhile P xs = xs"
  by (cases xs) auto

lemma py_strip_fixed:
  assumes "s = [] \<or> (\<not> is_space (hd s) \<and> \<not> is_space (last s))"
  shows "py_strip s = s"
proof (cases "s = []")
  case True then show ?thesis by (simp add: py_strip_def)
next
  case False
  with assms have h: "\<not> is_space (hd s)" and l: "\<not> is_space (last s)" by auto
  have a: "dropWhile is_space s = s" using False h by (rule dropWhile_fixed)
  have "hd (rev s) = last s" using False by (simp add: hd_rev)
  then have b: "dropWhile is_space (rev s) = rev s" using False l by (simp add: dropWhile_fixed)
  show ?thesis by (simp add: py_strip_def a b)
qed

text \<open>The test \<open>';' in text\<close> changes nothing: replacing is the identity without it.\<close>

lemma clean_text_eq:
  "clean_text text =
     (if pd_isna text \<or> text = CStr [] then []
      else py_replace semicolon fullwidth_comma (py_strip (py_str text)))"
  by (simp add: clean_text_def Let_def py_replace_absent)

lemma cleaned_replace_strip: "cleaned (py_replace semicolon fullwidth_comma (py_strip s))"
proof -
  let ?t = "py_strip s"
  let ?r = "py_replace semicolon fullwidth_comma ?t"
  have 1: "semicolon \<notin> set ?r" by (rule py_replace_removes[OF semicolon_not_comma])
  have 2: "?r = [] \<or> (\<not> is_space (hd ?r) \<and> \<not> is_space (last ?r))"
  proof (cases "?t = []")
    case True then show ?thesis by (simp add: py_replace_def)
  next
    case False
    with py_strip_edges[of s] have e: "\<not> is_space (hd ?t)" "\<not> is_space (last ?t)" by auto
    have "hd ?r = (if hd ?t = semicolon then fullwidth_comma else hd ?t)"
      using False by (simp add: py_replace_def hd_map)
    moreover have "last ?r = (if last ?t = semicolon then fullwidth_comma else last ?t)"
      using False by (simp add: py_replace_def last_map)
    ultimately show ?thesis using e not_space_comma by auto
  qed
  show ?thesis unfolding cleaned_def using 1 2 by blast
qed

lemma cleaned_clean_text: "cleaned (clean_text text)"
  by (simp add: clean_text_eq cleaned_replace_strip) (simp add: cleaned_def)

lemma clean_text_fixed: "cleaned s \<Longrightarrow> clean_text (CStr s) = s"
  by (auto simp: clean_text_eq cleaned_def pd_isna_def py_str_def py_strip_fixed py_replace_absent)

text \<open>
  C10. Text cleaning is idempotent: cleaning a cleaned string returns it
  unchanged. Equivalently, every output of \<open>_clean_text\<close> is a cleaned string
  (no semicolon, no whitespace at either end), and the cleaned strings are
  exactly the strings that \<open>_clean_text\<close> leaves as they are.
\<close>

theorem clean_text_idempotent:
  "clean_text (CStr (clean_text text)) = clean_text text \<and>
   cleaned (clean_text text) \<and>
   (clean_text (CStr s) = s \<longleftrightarrow> cleaned s)"
  using cleaned_clean_text clean_text_fixed by metis

theorem clean_text_idempotent_witness:
  "clean_text (CStr (clean_text (CStr (ustr '' a;b '')))) = [0x61, fullwidth_comma, 0x62] \<and>
   cleaned [0x61, fullwidth_comma, 0x62]"
  using clean_text_idempotent [of "CStr (ustr '' a;b '')" "[]"]
  by (simp add: clean_text_def pd_isna_def py_str_def py_strip_def py_replace_def ustr_def
      is_space_def semicolon_def fullwidth_comma_def)

text \<open>
  C4, as the specification states it, fails: the replacement is character for
  character, so the space behind each semicolon of
  \<open>"Integrity; Respect; Excellence"\<close> stays where it is.
\<close>

theorem semicolon_substitution_counterexample:
  "clean_text (CStr (ustr ''Integrity; Respect; Excellence'')) \<noteq>
     ustr ''Integrity'' @ [fullwidth_comma] @ ustr ''Respect'' @ [fullwidth_comma] @
     ustr ''Excellence''"
  by (simp add: clean_text_def pd_isna_def py_str_def py_strip_def py_replace_def ustr_def
      is_space_def semicolon_def fullwidth_comma_def)

text \<open>
  C4, amended. Text cleaning substitutes every semicolon of the stripped text
  with a full-width comma and leaves every other character in place, so no
  semicolon is left; cleaning \<open>"Integrity; Respect; Excellence"\<close> gives the
  three words separated by a full-width comma followed by a space.
\<close>

theorem semicolon_substitution:
  "clean_text text =
     (if pd_isna text \<or> text = CStr [] then []
      else map (\<lambda>c. if c = semicolon then fullwidth_comma else c) (py_strip (py_str text))) \<and>
   semicolon \<notin> set (clean_text text) \<and>
   clean_text (CStr (ustr ''Integrity; Respect; Excellence'')) =
     ustr ''Integrity'' @ [fullwidth_comma] @ ustr '' Respect'' @ [fullwidth_comma] @
     ustr '' Excellence''"
proof -
  have a: "clean_text text =
     (if pd_isna text \<or> text = CStr [] then []
      else map (\<lambda>c. if c = semicolon then fullwidth_comma else c) (py_strip (py_str text)))"
    using clean_text_eq[of "text"] by (simp add: py_replace_def)
  have b: "semicolon \<notin> set (clean_text text)"
    using cleaned_clean_text[of "text"] by (simp add: cleaned_def)
  have c: "clean_text (CStr (ustr ''Integrity; Respect; Excellence'')) =
     ustr ''Integrity'' @ [fullwidth_comma] @ ustr '' Respect'' @ [fullwidth_comma] @
     ustr '' Excellence''"
    by (simp add: clean_text_def pd_isna_def py_str_def py_strip_def py_replace_def ustr_def
        is_space_def semicolon_def fullwidth_comma_def)
  from a b c show ?thesis by blast
qed

theorem semicolon_substitution_witness:
  "clean_text (CStr (ustr ''a;;b'')) = [0x61, fullwidth_comma, fullwidth_comma, 0x62] \<and>
   semicolon \<notin> set (clean_text (CStr (ustr ''a;;b'')))"
  using semicolon_substitution [of "CStr (ustr ''a;;b'')"]
  by (simp add: pd_isna_def py_str_def py_strip_def ustr_def is_space_def semicolon_def
      fullwidth_comma_def)

section \<open>Combined text\<close>



section \<open>The row transformer\<close>

lemma py_bool_py_and: "py_bool (py_and (py_and a b) c) \<longleftrightarrow> a \<noteq> [] \<and> b \<noteq> [] \<and> c \<noteq> []"
  by (simp add: py_bool_def py_and_def)

lemma process_row_fields:
  assumes "process_row idx r = Inr c"
  shows "mission c = clean_text (row_get r ''mission'' (CStr []))"
    and "vision c = clean_text (row_get r ''vision'' (CStr []))"
    and "vals c = clean_text (row_get r ''values'' (CStr []))"
    and "has_complete_mvv c \<longleftrightarrow> mission c \<noteq> [] \<and> vision c \<noteq> [] \<and> vals c \<noteq> []"
  using assms
  by (auto simp: process_row_def Let_def py_bool_py_and split: sum.splits)

text \<open>
  C2. For every raw record that is processed into a company, the three text
  fields of the company are the cleaned fields of the record, and
  \<open>has_complete_mvv\<close> is true if and only if all three are non-empty: if
  any one of them is empty after cleaning, the flag is false.
\<close>

theorem has_complete_mvv_iff:
  assumes "process_row idx r = Inr c"
  shows "mission c = clean_text (row_get r ''mission'' (CStr [])) \<and>
         vision c = clean_text (row_get r ''vision'' (CStr [])) \<and>
         vals c = clean_text (row_get r ''values'' (CStr [])) \<and>
         (has_complete_mvv c \<longleftrightarrow> mission c \<noteq> [] \<and> vision c \<noteq> [] \<and> vals c \<noteq> [])"
  using process_row_fields[OF assms] by blast

lemma complete_row_runs: "\<not> isl (process_row 0 complete_row)"
  by (simp add: run_defs)

theorem has_complete_mvv_iff_witness:
  "\<exists>c. process_row 0 complete_row = Inr c \<and> has_complete_mvv c \<and>
       mission c = ustr ''Heal'' \<and> vision c = ustr ''Health'' \<and>
       vals c = ustr ''Care'' @ [fullwidth_comma] @ ustr '' Trust''"
proof -
  obtain c where e: "process_row 0 complete_row = Inr c"
    using complete_row_runs by (cases "process_row 0 complete_row") auto
  have m: "clean_text (row_get complete_row ''mission'' (CStr [])) = ustr ''Heal''"
    by (simp add: run_defs)
  have v: "clean_text (row_get complete_row ''vision'' (CStr [])) = ustr ''Health''"
    by (simp add: run_defs)
  have w: "clean_text (row_get complete_row ''values'' (CStr [])) =
      ustr ''Care'' @ [fullwidth_comma] @ ustr '' Trust''"
    by (simp add: run_defs)
  from has_complete_mvv_iff[OF e] show ?thesis using e m v w by (simp add: ustr_def)
qed

subsection \<open>The loop and its failures\<close>

lemma preprocess_loop_acc: "preprocess_loop idx rs acc = acc @ preprocess_loop idx rs []"
proof (induction rs arbitrary: idx acc)
  case Nil
  show ?case by simp
next
  case (Cons r rs)
  show ?case
  proof (cases "process_row idx r")
    case (Inl e)
    then show ?thesis using Cons.IH[of "idx + 1" acc] by simp
  next
    case (Inr c)
    then show ?thesis using Cons.IH[of "idx + 1" "acc @ [c]"] Cons.IH[of "idx + 1" "[c]"] by simp
  qed
qed

lemma preprocess_loop_append:
  "preprocess_loop idx (xs @ ys) acc = preprocess_loop (idx + length xs) ys (preprocess_loop idx xs acc)"
  by (induction xs arbitrary: idx acc) (auto split: sum.splits)

lemma preprocess_loop_emitted:
  "preprocess_loop idx rs acc = acc @ List.map_filter emitted (enumerate idx rs)"
proof (induction rs arbitrary: idx acc)
  case Nil
  show ?case by (simp add: List.map_filter_simps)
next
  case (Cons r rs)
  show ?case using Cons.IH[of "Suc idx"]
    by (simp add: List.map_filter_simps emitted_def split: sum.splits)
qed

lemma float_of_str_error: "float_of_str s = Inl e \<Longrightarrow> e = ValueError"
  by (simp add: float_of_str_def split: option.splits)

lemma py_float_error: "py_float c = Inl e \<Longrightarrow> e = ValueError \<or> e = OverflowError"
  by (auto simp: py_float_def split: cell.splits pyfloat.splits dest: float_of_str_error)

lemma process_row_error: "process_row idx r = Inl e \<Longrightarrow> e = ValueError \<or> e = OverflowError"
  by (auto simp: process_row_def Let_def split: sum.splits dest: py_float_error)

lemma py_float_default: "py_float (CNum 0 (ustr ''0.0'') (Some (ustr ''0.0''))) = Inr float_zero"
  by (simp add: py_float_def round64_def round64_frac_def ustr_def)

lemma process_row_raises:
  assumes "k \<in> {''missionConfidence'', ''visionConfidence'', ''valuesConfidence''}"
    and "py_float (row_get r k (CNum 0 (ustr ''0.0'') (Some (ustr ''0.0'')))) = Inl e"
  shows "\<exists>e'. process_row idx r = Inl e'"
  using assms by (auto simp: process_row_def Let_def split: sum.splits)

section \<open>The aggregator\<close>

subsection \<open>Keys and the grouping loop\<close>

lemma key_eq_refl: "key_eq k k"
  by (cases k) auto

lemma key_eq_sym: "key_eq a b \<Longrightarrow> key_eq b a"
  by (cases a; cases b) auto

lemma key_eq_trans: "key_eq a b \<Longrightarrow> key_eq b c \<Longrightarrow> key_eq a c"
  by (cases a; cases b; cases c) auto

lemma dict_contains_iff: "dict_contains d k \<longleftrightarrow> (\<exists>(k', l) \<in> set d. key_eq k' k)"
  by (induction d) auto

lemma group_step:
  "\<exists>l. dict_getitem (if \<not> dict_contains d k then dict_setitem d k [] else d) k = Inr l \<and>
       dict_setitem (if \<not> dict_contains d k then dict_setitem d k [] else d) k (l @ [x]) =
         dict_append d k x"
  by (induction d) (auto simp: key_eq_refl)

lemma group_by_category_foldl:
  "group_by_category d cs = Inr (foldl (\<lambda>d c. dict_append d (category c) c) d cs)"
proof (induction cs arbitrary: d)
  case Nil
  show ?case by simp
next
  case (Cons c cs)
  obtain l where
    "dict_getitem (if \<not> dict_contains d (category c) then dict_setitem d (category c) [] else d)
       (category c) = Inr l"
    "dict_setitem (if \<not> dict_contains d (category c) then dict_setitem d (category c) [] else d)
       (category c) (l @ [c]) = dict_append d (category c) c"
    using group_step[of d "category c" c] by blast
  then show ?case using Cons.IH by (simp add: Let_def)
qed

lemma dict_append_lengths:
  "sum_list (map (\<lambda>(k, l). length l) (dict_append d k x)) =
     Suc (sum_list (map (\<lambda>(k, l). length l) d))"
  by (induction d) auto

lemma dict_append_mset:
  "mset (concat (map snd (dict_append d k x))) = add_mset x (mset (concat (map snd d)))"
  by (induction d) auto

lemma dict_append_keys: "fst ` set (dict_append d k x) \<subseteq> insert k (fst ` set d)"
  by (induction d) (force split: if_splits)+

lemma dict_append_sorted:
  "sorted_wrt (\<lambda>a b. \<not> key_eq (fst a) (fst b)) d \<Longrightarrow>
   sorted_wrt (\<lambda>a b. \<not> key_eq (fst a) (fst b)) (dict_append d k x)"
proof (induction d)
  case Nil
  show ?case by simp
next
  case (Cons a d)
  obtain k' l where a: "a = (k', l)" by (cases a)
  show ?case
  proof (cases "key_eq k' k")
    case True
    then show ?thesis using Cons.prems by (simp add: a)
  next
    case False
    have "\<And>b. b \<in> set (dict_append d k x) \<Longrightarrow> \<not> key_eq k' (fst b)"
    proof -
      fix b assume "b \<in> set (dict_append d k x)"
      then have "fst b = k \<or> fst b \<in> fst ` set d" using dict_append_keys[of d k x] by auto
      then show "\<not> key_eq k' (fst b)" using False Cons.prems by (auto simp: a)
    qed
    then show ?thesis using False Cons by (auto simp: a)
  qed
qed

lemma dict_append_contains:
  "dict_contains (dict_append d k x) k0 \<longleftrightarrow> dict_contains d k0 \<or> key_eq k k0"
  by (induction d) (auto split: if_splits intro: key_eq_trans)

lemma dict_append_entries:
  "sorted_wrt (\<lambda>a b. \<not> key_eq (fst a) (fst b)) d \<Longrightarrow> (k0, l0) \<in> set (dict_append d k x) \<Longrightarrow>
   (\<exists>l. (k0, l) \<in> set d \<and> l0 = (if key_eq k0 k then l @ [x] else l)) \<or>
   (\<not> dict_contains d k \<and> k0 = k \<and> l0 = [x])"
proof (induction d)
  case Nil
  then show ?case by simp
next
  case (Cons a d)
  obtain k' l where a: "a = (k', l)" by (cases a)
  show ?case
  proof (cases "key_eq k' k")
    case True
    have "\<And>l1. (k0, l1) \<in> set d \<Longrightarrow> \<not> key_eq k0 k"
    proof
      fix l1 assume "(k0, l1) \<in> set d" "key_eq k0 k"
      then have "key_eq k' k0" using True key_eq_sym key_eq_trans by blast
      moreover have "\<not> key_eq k' k0" using Cons.prems(1) \<open>(k0, l1) \<in> set d\<close> by (auto simp: a)
      ultimately show False by simp
    qed
    then show ?thesis using True Cons.prems(2) by (auto simp: a)
  next
    case False
    from Cons.prems(2) False have "(k0, l0) = (k', l) \<or> (k0, l0) \<in> set (dict_append d k x)"
      by (simp add: a)
    then show ?thesis
    proof
      assume "(k0, l0) = (k', l)"
      then show ?thesis using False by (auto simp: a)
    next
      assume m: "(k0, l0) \<in> set (dict_append d k x)"
      have "sorted_wrt (\<lambda>a b. \<not> key_eq (fst a) (fst b)) d" using Cons.prems(1) by simp
      from Cons.IH[OF this m] show ?thesis using False by (auto simp: a)
    qed
  qed
qed

lemma grouped_step:
  assumes "grouped d xs"
  shows "grouped (dict_append d (category x) x) (xs @ [x])"
proof -
  let ?k = "category x"
  from assms have s: "sorted_wrt (\<lambda>a b. \<not> key_eq (fst a) (fst b)) d"
    and e: "\<And>k l. (k, l) \<in> set d \<Longrightarrow> l = filter (\<lambda>c. key_eq k (category c)) xs \<and> l \<noteq> []"
    and c: "\<And>c. c \<in> set xs \<Longrightarrow> dict_contains d (category c)"
    by (auto simp: grouped_def)
  have 1: "sorted_wrt (\<lambda>a b. \<not> key_eq (fst a) (fst b)) (dict_append d ?k x)"
    using s by (rule dict_append_sorted)
  have 2: "l0 = filter (\<lambda>c. key_eq k0 (category c)) (xs @ [x]) \<and> l0 \<noteq> []"
    if m: "(k0, l0) \<in> set (dict_append d ?k x)" for k0 l0
  proof -
    from dict_append_entries[OF s m] show ?thesis
    proof
      assume "\<exists>l. (k0, l) \<in> set d \<and> l0 = (if key_eq k0 ?k then l @ [x] else l)"
      then show ?thesis using e by auto
    next
      assume n: "\<not> dict_contains d ?k \<and> k0 = ?k \<and> l0 = [x]"
      have "filter (\<lambda>c. key_eq ?k (category c)) xs = []"
      proof -
        have "\<not> key_eq ?k (category y)" if "y \<in> set xs" for y
        proof
          assume q: "key_eq ?k (category y)"
          from c[OF that] obtain k' l' where "(k', l') \<in> set d" "key_eq k' (category y)"
            by (auto simp: dict_contains_iff)
          then have "key_eq k' ?k" using q key_eq_sym key_eq_trans by blast
          then have "dict_contains d ?k" using \<open>(k', l') \<in> set d\<close>
            by (auto simp: dict_contains_iff)
          then show False using n by simp
        qed
        then show ?thesis by (simp add: filter_empty_conv)
      qed
      then show ?thesis using n by (simp add: key_eq_refl)
    qed
  qed
  have 3: "dict_contains (dict_append d ?k x) (category y)" if "y \<in> set (xs @ [x])" for y
    using that c by (auto simp: dict_append_contains key_eq_refl)
  show ?thesis unfolding grouped_def using 1 2 3 by blast
qed

lemma grouped_foldl:
  "grouped d xs \<Longrightarrow> grouped (foldl (\<lambda>d c. dict_append d (category c) c) d cs) (xs @ cs)"
proof (induction cs arbitrary: d xs)
  case Nil
  then show ?case by simp
next
  case (Cons c cs)
  from Cons.IH[OF grouped_step[OF Cons.prems, of c]] show ?case by simp
qed

lemma foldl_lengths:
  "sum_list (map (\<lambda>(k, l). length l) (foldl (\<lambda>d c. dict_append d (category c) c) d cs)) =
     sum_list (map (\<lambda>(k, l). length l) d) + length cs"
  by (induction cs arbitrary: d) (auto simp: dict_append_lengths)

lemma foldl_mset:
  "mset (concat (map snd (foldl (\<lambda>d c. dict_append d (category c) c) d cs))) =
     mset (concat (map snd d)) + mset cs"
  by (induction cs arbitrary: d) (auto simp: dict_append_mset)

lemma group_by_category_result:
  "\<exists>d. group_by_category [] cs = Inr d \<and> grouped d cs \<and>
       sum_list (map (\<lambda>(k, l). length l) d) = length cs \<and>
       mset (concat (map snd d)) = mset cs"
proof -
  have "grouped [] []" by (simp add: grouped_def)
  from grouped_foldl[OF this, of cs] show ?thesis
    by (simp add: group_by_category_foldl foldl_lengths foldl_mset)
qed

subsection \<open>The bundle\<close>

lemma get_analysis_ready_data_returns:
  assumes "processed_data self = Some pd" and "pd \<noteq> []"
  shows "\<exists>b. get_analysis_ready_data self now = Inr b"
proof -
  obtain d where "group_by_category [] (filter has_complete_mvv pd) = Inr d"
    using group_by_category_result by blast
  then show ?thesis using assms by (simp add: get_analysis_ready_data_def Let_def)
qed

lemma get_analysis_ready_data_Inr:
  assumes "get_analysis_ready_data self now = Inr b"
  shows "\<exists>pd. processed_data self = Some pd \<and> pd \<noteq> [] \<and>
           total_companies b = length pd \<and>
           companies b = filter has_complete_mvv pd \<and>
           complete_mvv_companies b = length (companies b) \<and>
           categories b = map fst (by_category b) \<and>
           processed_at b = now \<and>
           group_by_category [] (companies b) = Inr (by_category b)"
  using assms
  by (auto simp: get_analysis_ready_data_def Let_def split: option.splits if_splits sum.splits)

lemma by_category_grouped:
  assumes "get_analysis_ready_data self now = Inr b"
  shows "grouped (by_category b) (companies b) \<and>
         sum_list (map (\<lambda>(k, l). length l) (by_category b)) = length (companies b) \<and>
         mset (concat (map snd (by_category b))) = mset (companies b)"
proof -
  from get_analysis_ready_data_Inr[OF assms]
  have g: "group_by_category [] (companies b) = Inr (by_category b)" by blast
  from group_by_category_result[of "companies b"] g show ?thesis by auto
qed

lemma sample_runs: "\<not> isl (get_analysis_ready_data sample_processor ''t'')"
  by (simp add: run_defs)

text \<open>
  C1. Whenever \<open>get_analysis_ready_data\<close> returns a bundle,
  \<open>complete_mvv_companies\<close> is the length of \<open>companies\<close> and the sum of
  the lengths of the lists of \<open>by_category\<close>; \<open>companies\<close> is the
  complete-only filter of the processed data; and \<open>by_category\<close> is a
  partition of \<open>companies\<close> by category: its lists together hold exactly
  the companies of \<open>companies\<close>, each as often as there (none duplicated,
  none dropped), no list is empty, every company of a list has the category of
  its key, every company is in the list of its category, and no two keys are
  the same category.
\<close>

theorem bundle_counts_and_partition:
  assumes "get_analysis_ready_data self now = Inr b"
  shows "complete_mvv_companies b = length (companies b) \<and>
         sum_list (map (\<lambda>(k, cs). length cs) (by_category b)) = length (companies b) \<and>
         (\<exists>pd. processed_data self = Some pd \<and> companies b = filter has_complete_mvv pd) \<and>
         mset (concat (map snd (by_category b))) = mset (companies b) \<and>
         (\<forall>(k, cs) \<in> set (by_category b). cs \<noteq> [] \<and> (\<forall>c \<in> set cs. key_eq k (category c))) \<and>
         (\<forall>c \<in> set (companies b). \<exists>(k, cs) \<in> set (by_category b). key_eq k (category c) \<and> c \<in> set cs) \<and>
         sorted_wrt (\<lambda>e1 e2. \<not> key_eq (fst e1) (fst e2)) (by_category b)"
proof -
  from by_category_grouped[OF assms]
  have g: "grouped (by_category b) (companies b)"
    and n: "sum_list (map (\<lambda>(k, l). length l) (by_category b)) = length (companies b)"
    and m: "mset (concat (map snd (by_category b))) = mset (companies b)" by auto
  from get_analysis_ready_data_Inr[OF assms]
  have 1: "complete_mvv_companies b = length (companies b)"
    and 3: "\<exists>pd. processed_data self = Some pd \<and> companies b = filter has_complete_mvv pd"
    by auto
  from g have e: "\<And>k cs. (k, cs) \<in> set (by_category b) \<Longrightarrow>
      cs = filter (\<lambda>c. key_eq k (category c)) (companies b) \<and> cs \<noteq> []"
    and s: "sorted_wrt (\<lambda>e1 e2. \<not> key_eq (fst e1) (fst e2)) (by_category b)"
    and c: "\<And>c. c \<in> set (companies b) \<Longrightarrow> dict_contains (by_category b) (category c)"
    by (auto simp: grouped_def)
  have 5: "\<forall>(k, cs) \<in> set (by_category b). cs \<noteq> [] \<and> (\<forall>c \<in> set cs. key_eq k (category c))"
  proof (clarify)
    fix k cs assume i: "(k, cs) \<in> set (by_category b)"
    from e[OF i] have "cs \<noteq> []" and "set cs = {c \<in> set (companies b). key_eq k (category c)}"
      by (auto simp: set_filter[symmetric] simp del: set_filter)
    then show "cs \<noteq> [] \<and> (\<forall>c \<in> set cs. key_eq k (category c))" by auto
  qed
  have 6: "\<forall>c \<in> set (companies b). \<exists>(k, cs) \<in> set (by_category b). key_eq k (category c) \<and> c \<in> set cs"
  proof
    fix x assume x: "x \<in> set (companies b)"
    from c[OF x] obtain k cs where i: "(k, cs) \<in> set (by_category b)" and q: "key_eq k (category x)"
      by (auto simp: dict_contains_iff)
    from e[OF i] have "cs = filter (\<lambda>c. key_eq k (category c)) (companies b)" by simp
    then have "x \<in> set cs" using x q by (metis (mono_tags, lifting) mem_Collect_eq set_filter)
    then show "\<exists>(k, cs) \<in> set (by_category b). key_eq k (category x) \<and> x \<in> set cs"
      using i q by auto
  qed
  from 1 n 3 m 5 6 s show ?thesis by blast
qed

theorem bundle_counts_and_partition_witness:
  "\<exists>b. get_analysis_ready_data sample_processor ''t'' = Inr b \<and>
       complete_mvv_companies b = 3 \<and> length (companies b) = 3 \<and>
       sum_list (map (\<lambda>(k, cs). length cs) (by_category b)) = 3 \<and>
       mset (concat (map snd (by_category b))) = mset (companies b)"
proof -
  obtain b where e: "get_analysis_ready_data sample_processor ''t'' = Inr b"
    using sample_runs by (cases "get_analysis_ready_data sample_processor ''t''") auto
  have "(case get_analysis_ready_data sample_processor ''t'' of
           Inl _ \<Rightarrow> 0 | Inr b \<Rightarrow> complete_mvv_companies b) = 3"
    by (simp add: run_defs)
  then have n: "complete_mvv_companies b = 3" using e by simp
  from bundle_counts_and_partition[OF e] n e show ?thesis by auto
qed

text \<open>
  C7. The row transformer emits exactly one company for each record whose
  processing succeeds, in the order of the input, and nothing for a record
  whose processing fails. In the bundle, \<open>companies\<close> keeps the order of
  the processed data, and the list of every category holds the companies of
  that category in the order of \<open>companies\<close>.
\<close>

theorem order_preserved:
  "preprocess_loop 0 rs [] = List.map_filter emitted (enumerate 0 rs) \<and>
   (data self = Some df \<longrightarrow>
      preprocess_mvv_data self =
        Inr (self\<lparr>processed_data := Some (List.map_filter emitted (enumerate 0 (iterrows df)))\<rparr>)) \<and>
   (get_analysis_ready_data self now = Inr b \<longrightarrow>
      (\<exists>pd. processed_data self = Some pd \<and> companies b = filter has_complete_mvv pd) \<and>
      (\<forall>(k, cs) \<in> set (by_category b). cs = filter (\<lambda>c. key_eq k (category c)) (companies b)))"
proof -
  have 1: "preprocess_loop 0 rs [] = List.map_filter emitted (enumerate 0 rs)" for rs
    using preprocess_loop_emitted[of 0 rs "[]"] by simp
  have 2: "data self = Some df \<longrightarrow>
      preprocess_mvv_data self =
        Inr (self\<lparr>processed_data := Some (List.map_filter emitted (enumerate 0 (iterrows df)))\<rparr>)"
    by (simp add: preprocess_mvv_data_def 1)
  have 3: "get_analysis_ready_data self now = Inr b \<longrightarrow>
      (\<exists>pd. processed_data self = Some pd \<and> companies b = filter has_complete_mvv pd) \<and>
      (\<forall>(k, cs) \<in> set (by_category b). cs = filter (\<lambda>c. key_eq k (category c)) (companies b))"
  proof
    assume a: "get_analysis_ready_data self now = Inr b"
    from by_category_grouped[OF a] have "grouped (by_category b) (companies b)" by simp
    then have "\<forall>(k, cs) \<in> set (by_category b). cs = filter (\<lambda>c. key_eq k (category c)) (companies b)"
      by (auto simp: grouped_def)
    moreover from get_analysis_ready_data_Inr[OF a]
    have "\<exists>pd. processed_data self = Some pd \<and> companies b = filter has_complete_mvv pd" by auto
    ultimately show "(\<exists>pd. processed_data self = Some pd \<and> companies b = filter has_complete_mvv pd) \<and>
      (\<forall>(k, cs) \<in> set (by_category b). cs = filter (\<lambda>c. key_eq k (category c)) (companies b))"
      by blast
  qed
  from 1 2 3 show ?thesis by blast
qed

theorem order_preserved_witness:
  "\<exists>b. get_analysis_ready_data sample_processor ''t'' = Inr b \<and>
       map (\<lambda>(k, cs). (k, map name cs)) (by_category b) =
         [(CStr (ustr ''IT''), [CStr (ustr ''A''), CStr (ustr ''E'')]),
          (CStr (ustr ''Med''), [CStr (ustr ''B'')])] \<and>
       map name (companies b) = [CStr (ustr ''A''), CStr (ustr ''B''), CStr (ustr ''E'')] \<and>
       (\<exists>cs. (CStr (ustr ''IT''), cs) \<in> set (by_category b) \<and>
          cs = filter (\<lambda>c. key_eq (CStr (ustr ''IT'')) (category c)) (companies b)) \<and>
       preprocess_mvv_data sample_processor =
         Inr (sample_processor\<lparr>processed_data :=
                Some (List.map_filter emitted (enumerate 0 (iterrows sample_frame)))\<rparr>)"
proof -
  obtain b where e: "get_analysis_ready_data sample_processor ''t'' = Inr b"
    using sample_runs by (cases "get_analysis_ready_data sample_processor ''t''") auto
  have "(case get_analysis_ready_data sample_processor ''t'' of
           Inl _ \<Rightarrow> [] | Inr b \<Rightarrow> map (\<lambda>(k, cs). (k, map name cs)) (by_category b)) =
         [(CStr (ustr ''IT''), [CStr (ustr ''A''), CStr (ustr ''E'')]),
          (CStr (ustr ''Med''), [CStr (ustr ''B'')])]"
    by (simp add: run_defs)
  then have n: "map (\<lambda>(k, cs). (k, map name cs)) (by_category b) =
         [(CStr (ustr ''IT''), [CStr (ustr ''A''), CStr (ustr ''E'')]),
          (CStr (ustr ''Med''), [CStr (ustr ''B'')])]" using e by simp
  have "(case get_analysis_ready_data sample_processor ''t'' of
           Inl _ \<Rightarrow> [] | Inr b \<Rightarrow> map name (companies b)) =
         [CStr (ustr ''A''), CStr (ustr ''B''), CStr (ustr ''E'')]"
    by (simp add: run_defs)
  then have m: "map name (companies b) = [CStr (ustr ''A''), CStr (ustr ''B''), CStr (ustr ''E'')]"
    using e by simp
  have d: "data sample_processor = Some sample_frame" by (simp add: sample_processor_def)
  from n obtain cs where i: "(CStr (ustr ''IT''), cs) \<in> set (by_category b)"
    by (cases "by_category b") (auto simp: ustr_def)
  from order_preserved[of "iterrows sample_frame" sample_processor sample_frame "''t''" b] e d i
  have f: "cs = filter (\<lambda>c. key_eq (CStr (ustr ''IT'')) (category c)) (companies b)"
    and p: "preprocess_mvv_data sample_processor =
         Inr (sample_processor\<lparr>processed_data :=
                Some (List.map_filter emitted (enumerate 0 (iterrows sample_frame)))\<rparr>)"
    by auto
  have x: "\<exists>cs. (CStr (ustr ''IT''), cs) \<in> set (by_category b) \<and>
          cs = filter (\<lambda>c. key_eq (CStr (ustr ''IT'')) (category c)) (companies b)"
    by (intro exI[of _ cs] conjI i f)
  show ?thesis by (rule exI[of _ b]) (intro conjI e n m x p)
qed

section \<open>Failures of the run and the output\<close>

subsection \<open>Unparseable confidence values\<close>

lemma run_pipeline_loaded:
  assumes "load_data MVVDataProcessor (Inr df) = Inr p"
  shows "run_pipeline (Inr df) now dump =
           save_processed_data dump
             (MVVDataProcessor\<lparr>data := Some df,
                processed_data := Some (preprocess_loop 0 (iterrows df) [])\<rparr>) now"
proof -
  from assms have "p = MVVDataProcessor\<lparr>data := Some df\<rparr>"
    by (auto simp: load_data_def split: sum.splits)
  then show ?thesis using assms by (simp add: run_pipeline_def preprocess_mvv_data_def)
qed

lemma run_pipeline_after_load:
  assumes "load_data MVVDataProcessor (Inr df) = Inr p"
  shows "(preprocess_loop 0 (iterrows df) [] = [] \<longrightarrow>
            run_pipeline (Inr df) now dump = Inl ValueError) \<and>
         (preprocess_loop 0 (iterrows df) [] \<noteq> [] \<longrightarrow>
            (\<exists>b. run_pipeline (Inr df) now dump = dump b))"
proof -
  let ?p = "MVVDataProcessor\<lparr>data := Some df,
                processed_data := Some (preprocess_loop 0 (iterrows df) [])\<rparr>"
  have r: "run_pipeline (Inr df) now dump = save_processed_data dump ?p now"
    by (rule run_pipeline_loaded[OF assms])
  have 1: "preprocess_loop 0 (iterrows df) [] = [] \<longrightarrow>
            run_pipeline (Inr df) now dump = Inl ValueError"
    by (simp add: r save_processed_data_def get_analysis_ready_data_def)
  have 2: "preprocess_loop 0 (iterrows df) [] \<noteq> [] \<longrightarrow>
            (\<exists>b. run_pipeline (Inr df) now dump = dump b)"
  proof
    assume n: "preprocess_loop 0 (iterrows df) [] \<noteq> []"
    have "processed_data ?p = Some (preprocess_loop 0 (iterrows df) [])" by simp
    from get_analysis_ready_data_returns[OF this n, of now]
    obtain b where "get_analysis_ready_data ?p now = Inr b" by blast
    then show "\<exists>b. run_pipeline (Inr df) now dump = dump b"
      by (auto simp: r save_processed_data_def)
  qed
  from 1 2 show ?thesis by blast
qed

text \<open>
  C3, as the specification states it, fails: a record whose
  \<open>missionConfidence\<close> is the non-numeric string \<open>"abc"\<close> gets no score
  of 0.0, since \<open>float\<close> raises inside the \<open>try\<close> and the record is
  skipped: nothing is emitted for it. When it is the only record, the guard
  of the aggregator then aborts the run.
\<close>

theorem unparseable_confidence_counterexample:
  "preprocess_loop 0 (iterrows unparseable_frame) [] = [] \<and>
   run_pipeline (Inr unparseable_frame) ''2026-01-01T00:00:00''
     (Inr :: analysis_bundle \<Rightarrow> error + analysis_bundle) = Inl ValueError"
  by (simp add: run_defs)

text \<open>
  C3, amended. When the record has no column for a confidence field, the
  score defaults to 0.0, and a record without any of the three columns is
  emitted with three scores of 0.0. A record in which a confidence field holds
  an unparseable string is not emitted: the loop goes on with the records
  behind it, under their own row numbers, as if the record had contributed
  nothing. After a successful load the run reaches the writer whenever at
  least one record is emitted, and is aborted by the guard of the aggregator
  when none is.
\<close>

theorem confidence_default_and_skip:
  "(map_of r ''missionConfidence'' = None \<and> process_row idx r = Inr c \<longrightarrow>
      conf_mission (confidence_scores c) = float_zero) \<and>
   (map_of r ''visionConfidence'' = None \<and> process_row idx r = Inr c \<longrightarrow>
      conf_vision (confidence_scores c) = float_zero) \<and>
   (map_of r ''valuesConfidence'' = None \<and> process_row idx r = Inr c \<longrightarrow>
      conf_values (confidence_scores c) = float_zero) \<and>
   (map_of r ''missionConfidence'' = None \<and> map_of r ''visionConfidence'' = None \<and>
    map_of r ''valuesConfidence'' = None \<longrightarrow>
      (\<exists>c'. process_row idx r = Inr c' \<and>
         confidence_scores c' =
           \<lparr> conf_mission = float_zero, conf_vision = float_zero, conf_values = float_zero \<rparr>)) \<and>
   (k \<in> {''missionConfidence'', ''visionConfidence'', ''valuesConfidence''} \<and>
    map_of r k = Some (CStr s) \<and> float_of_str s = Inl e \<longrightarrow>
      preprocess_loop idx (pre @ r # post) acc =
        preprocess_loop (idx + length pre + 1) post (preprocess_loop idx pre acc)) \<and>
   (load_data MVVDataProcessor (Inr df) = Inr p \<and> preprocess_loop 0 (iterrows df) [] \<noteq> [] \<longrightarrow>
      (\<exists>b. run_pipeline (Inr df) now dump = dump b)) \<and>
   (load_data MVVDataProcessor (Inr df) = Inr p \<and> preprocess_loop 0 (iterrows df) [] = [] \<longrightarrow>
      run_pipeline (Inr df) now dump = Inl ValueError)"
proof -
  have d: "map_of r key = None \<Longrightarrow> py_float (row_get r key (CNum 0 (ustr ''0.0'') (Some (ustr ''0.0'')))) = Inr (float_zero)" for key
    by (simp add: row_get_def py_float_default)
  have 1: "map_of r ''missionConfidence'' = None \<and> process_row idx r = Inr c \<longrightarrow>
      conf_mission (confidence_scores c) = float_zero"
    using d[of "''missionConfidence''"]
    by (auto simp: process_row_def Let_def split: sum.splits)
  have 2: "map_of r ''visionConfidence'' = None \<and> process_row idx r = Inr c \<longrightarrow>
      conf_vision (confidence_scores c) = float_zero"
    using d[of "''visionConfidence''"]
    by (auto simp: process_row_def Let_def split: sum.splits)
  have 3: "map_of r ''valuesConfidence'' = None \<and> process_row idx r = Inr c \<longrightarrow>
      conf_values (confidence_scores c) = float_zero"
    using d[of "''valuesConfidence''"]
    by (auto simp: process_row_def Let_def split: sum.splits)
  have 4: "k \<in> {''missionConfidence'', ''visionConfidence'', ''valuesConfidence''} \<and>
    map_of r k = Some (CStr s) \<and> float_of_str s = Inl e \<longrightarrow>
      preprocess_loop idx (pre @ r # post) acc =
        preprocess_loop (idx + length pre + 1) post (preprocess_loop idx pre acc)"
  proof
    assume a: "k \<in> {''missionConfidence'', ''visionConfidence'', ''valuesConfidence''} \<and>
      map_of r k = Some (CStr s) \<and> float_of_str s = Inl e"
    then have "py_float (row_get r k (CNum 0 (ustr ''0.0'') (Some (ustr ''0.0'')))) = Inl e"
      by (simp add: row_get_def py_float_def)
    with a obtain e' where "process_row (idx + length pre) r = Inl e'"
      using process_row_raises by blast
    then show "preprocess_loop idx (pre @ r # post) acc =
        preprocess_loop (idx + length pre + 1) post (preprocess_loop idx pre acc)"
      by (simp add: preprocess_loop_append)
  qed
  have 5: "map_of r ''missionConfidence'' = None \<and> map_of r ''visionConfidence'' = None \<and>
    map_of r ''valuesConfidence'' = None \<longrightarrow>
      (\<exists>c'. process_row idx r = Inr c' \<and>
         confidence_scores c' =
           \<lparr> conf_mission = float_zero, conf_vision = float_zero, conf_values = float_zero \<rparr>)"
    using d[of "''missionConfidence''"] d[of "''visionConfidence''"] d[of "''valuesConfidence''"]
    by (auto simp: process_row_def Let_def)
  have 6: "load_data MVVDataProcessor (Inr df) = Inr p \<and>
      preprocess_loop 0 (iterrows df) [] \<noteq> [] \<longrightarrow>
      (\<exists>b. run_pipeline (Inr df) now dump = dump b)"
    using run_pipeline_after_load[of df p now dump] by blast
  have 7: "load_data MVVDataProcessor (Inr df) = Inr p \<and>
      preprocess_loop 0 (iterrows df) [] = [] \<longrightarrow>
      run_pipeline (Inr df) now dump = Inl ValueError"
    using run_pipeline_after_load[of df p now dump] by blast
  from 1 2 3 5 4 6 7 show ?thesis by blast
qed

theorem confidence_default_and_skip_witness:
  "preprocess_loop 0 ([complete_row] @ unparseable_row # [complete_row]) [] =
     preprocess_loop 2 [complete_row] (preprocess_loop 0 [complete_row] []) \<and>
   (\<exists>c. process_row 0 complete_row = Inr c \<and> conf_vision (confidence_scores c) = float_zero \<and>
        conf_values (confidence_scores c) = float_zero) \<and>
   (\<exists>b. run_pipeline (Inr sample_frame) ''t'' Inr = Inr b) \<and>
   run_pipeline (Inr unparseable_frame) ''t'' (\<lambda>b. Inr (total_companies b)) = Inl ValueError"
proof -
  obtain c where e: "process_row 0 complete_row = Inr c"
    using complete_row_runs by (cases "process_row 0 complete_row") auto
  have a: "map_of complete_row ''visionConfidence'' = None"
    "map_of complete_row ''valuesConfidence'' = None"
    by (simp_all add: complete_row_def)
  have b: "map_of unparseable_row ''missionConfidence'' = Some (CStr (ustr ''abc''))"
    by (simp add: unparseable_row_def)
  have f: "float_of_str (ustr ''abc'') = Inl ValueError" by (simp add: run_defs)
  from confidence_default_and_skip[of complete_row 0 c "''missionConfidence''" "ustr ''abc''" ValueError
      "[]" "[]" "[]" sample_frame MVVDataProcessor "''t''" Inr] a e
  have 1: "conf_vision (confidence_scores c) = float_zero" "conf_values (confidence_scores c) = float_zero"
    by auto
  from confidence_default_and_skip[of unparseable_row 0 c "''missionConfidence''" "ustr ''abc''" ValueError
      "[complete_row]" "[complete_row]" "[]" sample_frame MVVDataProcessor "''t''" Inr] b f
  have "preprocess_loop 0 ([complete_row] @ unparseable_row # [complete_row]) [] =
     preprocess_loop (0 + length [complete_row] + 1) [complete_row]
       (preprocess_loop 0 [complete_row] [])"
    by blast
  moreover have "0 + length [complete_row] + 1 = 2" by simp
  ultimately have 2: "preprocess_loop 0 ([complete_row] @ unparseable_row # [complete_row]) [] =
     preprocess_loop 2 [complete_row] (preprocess_loop 0 [complete_row] [])"
    by (simp only:)
  have l1: "load_data MVVDataProcessor (Inr sample_frame) =
      Inr (MVVDataProcessor\<lparr>data := Some sample_frame\<rparr>)"
    by (simp add: load_data_def print_basic_stats_def getitem_column_def sample_frame_def)
  have n1: "preprocess_loop 0 (iterrows sample_frame) [] \<noteq> []"
    by (simp add: run_defs)
  from confidence_default_and_skip[of complete_row 0 c "''missionConfidence''" "ustr ''abc''" ValueError
      "[]" "[]" "[]" sample_frame "MVVDataProcessor\<lparr>data := Some sample_frame\<rparr>" "''t''" Inr] l1 n1
  have 3: "\<exists>b. run_pipeline (Inr sample_frame) ''t'' Inr = Inr b"
    by blast
  have l2: "load_data MVVDataProcessor (Inr unparseable_frame) =
      Inr (MVVDataProcessor\<lparr>data := Some unparseable_frame\<rparr>)"
    by (simp add: load_data_def print_basic_stats_def getitem_column_def unparseable_frame_def)
  have n2: "preprocess_loop 0 (iterrows unparseable_frame) [] = []"
    by (simp add: run_defs)
  from confidence_default_and_skip[of complete_row 0 c "''missionConfidence''" "ustr ''abc''" ValueError
      "[]" "[]" "[]" unparseable_frame "MVVDataProcessor\<lparr>data := Some unparseable_frame\<rparr>" "''t''"
      "\<lambda>b. Inr (total_companies b)"] l2 n2
  have 4: "run_pipeline (Inr unparseable_frame) ''t'' (\<lambda>b. Inr (total_companies b)) = Inl ValueError"
    by blast
  from 1 2 3 4 e show ?thesis by simp
qed

subsection \<open>The guard of the aggregator\<close>

text \<open>
  C8. Calling the aggregator before any records were processed
  (\<open>processed_data\<close> is \<open>None\<close> or empty) raises an error, and the
  aggregator raises in no other case. The error is of the fatal kind: it goes
  on to the caller, \<open>save_processed_data\<close> raises it again and \<open>main\<close>
  returns 1. A record-level failure is of the other kind: the record is
  skipped inside the loop and the failure never leaves the row transformer,
  which returns whenever the data are loaded and fails only for want of loaded
  data; and a run in which some record is emitted reaches the writer.
\<close>

theorem empty_pipeline_guard:
  "(processed_data self = None \<or> processed_data self = Some [] \<longrightarrow>
      get_analysis_ready_data self now = Inl ValueError \<and>
      save_processed_data dump self now = Inl ValueError) \<and>
   (get_analysis_ready_data self now = Inl e \<longrightarrow>
      processed_data self = None \<or> processed_data self = Some []) \<and>
   (process_row (idx + length pre) r = Inl e' \<longrightarrow>
      preprocess_loop idx (pre @ r # post) acc =
        preprocess_loop (idx + length pre + 1) post (preprocess_loop idx pre acc)) \<and>
   (data self = Some df \<longrightarrow> (\<exists>self'. preprocess_mvv_data self = Inr self')) \<and>
   (preprocess_mvv_data self = Inl e'' \<longrightarrow> e'' = AttributeError \<and> data self = None) \<and>
   (load_data MVVDataProcessor (Inr df') = Inr p \<and> preprocess_loop 0 (iterrows df') [] = [] \<longrightarrow>
      run_pipeline (Inr df') now dump = Inl ValueError \<and> main (Inr df') now dump = 1) \<and>
   (load_data MVVDataProcessor (Inr df') = Inr p \<and> preprocess_loop 0 (iterrows df') [] \<noteq> [] \<longrightarrow>
      (\<exists>b. run_pipeline (Inr df') now dump = dump b))"
proof -
  have 1: "processed_data self = None \<or> processed_data self = Some [] \<longrightarrow>
      get_analysis_ready_data self now = Inl ValueError \<and>
      save_processed_data dump self now = Inl ValueError"
    by (auto simp: get_analysis_ready_data_def save_processed_data_def)
  have 2: "get_analysis_ready_data self now = Inl e \<longrightarrow>
      processed_data self = None \<or> processed_data self = Some []"
  proof (cases "processed_data self")
    case None
    then show ?thesis by simp
  next
    case (Some pd)
    show ?thesis
    proof (cases "pd = []")
      case True
      then show ?thesis using Some by simp
    next
      case False
      from get_analysis_ready_data_returns[OF Some False, of now] show ?thesis by auto
    qed
  qed
  have 3: "process_row (idx + length pre) r = Inl e' \<longrightarrow>
      preprocess_loop idx (pre @ r # post) acc =
        preprocess_loop (idx + length pre + 1) post (preprocess_loop idx pre acc)"
    by (simp add: preprocess_loop_append)
  have 4: "data self = Some df \<longrightarrow> (\<exists>self'. preprocess_mvv_data self = Inr self')"
    by (simp add: preprocess_mvv_data_def)
  have 5: "preprocess_mvv_data self = Inl e'' \<longrightarrow> e'' = AttributeError \<and> data self = None"
    by (auto simp: preprocess_mvv_data_def split: option.splits)
  have 6: "load_data MVVDataProcessor (Inr df') = Inr p \<and>
      preprocess_loop 0 (iterrows df') [] = [] \<longrightarrow>
      run_pipeline (Inr df') now dump = Inl ValueError \<and> main (Inr df') now dump = 1"
    using run_pipeline_after_load[of df' p now dump] by (auto simp: main_def)
  have 7: "load_data MVVDataProcessor (Inr df') = Inr p \<and>
      preprocess_loop 0 (iterrows df') [] \<noteq> [] \<longrightarrow>
      (\<exists>b. run_pipeline (Inr df') now dump = dump b)"
    using run_pipeline_after_load[of df' p now dump] by blast
  from 1 2 3 4 5 6 7 show ?thesis by blast
qed

theorem empty_pipeline_guard_witness:
  "get_analysis_ready_data MVVDataProcessor ''t'' = Inl ValueError \<and>
   save_processed_data json_dump (MVVDataProcessor\<lparr>processed_data := Some []\<rparr>) ''t'' =
     Inl ValueError \<and>
   preprocess_loop 0 ([complete_row] @ unparseable_row # [complete_row]) [] =
     preprocess_loop 2 [complete_row] (preprocess_loop 0 [complete_row] []) \<and>
   (\<exists>self'. preprocess_mvv_data sample_processor = Inr self') \<and>
   preprocess_mvv_data MVVDataProcessor = Inl AttributeError \<and>
   main (Inr unparseable_frame) ''t'' json_dump = 1 \<and>
   (\<exists>b. run_pipeline (Inr sample_frame) ''t'' json_dump = json_dump b)"
proof -
  have n: "processed_data MVVDataProcessor = None" by (simp add: MVVDataProcessor_def)
  have a: "get_analysis_ready_data MVVDataProcessor ''t'' = Inl ValueError"
    using empty_pipeline_guard[of MVVDataProcessor "''t''" json_dump ValueError 0 "[]" unparseable_row
        ValueError "[]" "[]" sample_frame AttributeError sample_frame MVVDataProcessor] n
    by blast
  have b: "save_processed_data json_dump (MVVDataProcessor\<lparr>processed_data := Some []\<rparr>) ''t'' =
      Inl ValueError"
    using empty_pipeline_guard[of "MVVDataProcessor\<lparr>processed_data := Some []\<rparr>" "''t''" json_dump
        ValueError 0 "[]" unparseable_row ValueError "[]" "[]" sample_frame AttributeError
        sample_frame MVVDataProcessor]
    by simp
  have "isl (process_row (0 + length [complete_row]) unparseable_row)" by (simp add: run_defs)
  then obtain e' where e: "process_row (0 + length [complete_row]) unparseable_row = Inl e'"
    by (cases "process_row (0 + length [complete_row]) unparseable_row") auto
  from empty_pipeline_guard[of MVVDataProcessor "''t''" json_dump ValueError 0 "[complete_row]"
      unparseable_row e'
      "[complete_row]" "[]" sample_frame AttributeError sample_frame MVVDataProcessor] e
  have "preprocess_loop 0 ([complete_row] @ unparseable_row # [complete_row]) [] =
     preprocess_loop (0 + length [complete_row] + 1) [complete_row]
       (preprocess_loop 0 [complete_row] [])"
    by (simp del: preprocess_loop.simps append.simps)
  moreover have "0 + length [complete_row] + 1 = 2" by simp
  ultimately have c: "preprocess_loop 0 ([complete_row] @ unparseable_row # [complete_row]) [] =
     preprocess_loop 2 [complete_row] (preprocess_loop 0 [complete_row] [])"
    by (simp only:)
  have "data sample_processor = Some sample_frame" by (simp add: sample_processor_def)
  with empty_pipeline_guard[of sample_processor "''t''" json_dump ValueError 0 "[]" unparseable_row
      ValueError "[]" "[]" sample_frame AttributeError sample_frame MVVDataProcessor]
  have d: "\<exists>self'. preprocess_mvv_data sample_processor = Inr self'" by blast
  have "preprocess_mvv_data MVVDataProcessor = Inl AttributeError"
    by (simp add: preprocess_mvv_data_def MVVDataProcessor_def)
  with empty_pipeline_guard[of MVVDataProcessor "''t''" json_dump ValueError 0 "[]" unparseable_row
      ValueError "[]" "[]" sample_frame AttributeError sample_frame MVVDataProcessor]
  have f: "preprocess_mvv_data MVVDataProcessor = Inl AttributeError" by blast
  have l2: "load_data MVVDataProcessor (Inr unparseable_frame) =
      Inr (MVVDataProcessor\<lparr>data := Some unparseable_frame\<rparr>)"
    by (simp add: load_data_def print_basic_stats_def getitem_column_def unparseable_frame_def)
  have n2: "preprocess_loop 0 (iterrows unparseable_frame) [] = []"
    by (simp add: run_defs)
  from empty_pipeline_guard[of MVVDataProcessor "''t''" json_dump ValueError 0 "[]" unparseable_row
      ValueError "[]" "[]" sample_frame AttributeError unparseable_frame
      "MVVDataProcessor\<lparr>data := Some unparseable_frame\<rparr>"] l2 n2
  have g: "main (Inr unparseable_frame) ''t'' json_dump = 1" by blast
  have l1: "load_data MVVDataProcessor (Inr sample_frame) =
      Inr (MVVDataProcessor\<lparr>data := Some sample_frame\<rparr>)"
    by (simp add: load_data_def print_basic_stats_def getitem_column_def sample_frame_def)
  have n1: "preprocess_loop 0 (iterrows sample_frame) [] \<noteq> []"
    by (simp add: run_defs)
  from empty_pipeline_guard[of MVVDataProcessor "''t''" json_dump ValueError 0 "[]" unparseable_row
      ValueError "[]" "[]" sample_frame AttributeError sample_frame
      "MVVDataProcessor\<lparr>data := Some sample_frame\<rparr>"] l1 n1
  have h: "\<exists>b. run_pipeline (Inr sample_frame) ''t'' json_dump = json_dump b" by blast
  from a b c d f g h show ?thesis by blast
qed

subsection \<open>The serialized output\<close>

lemma andthen_Inl: "andthen (Inl e) b = Inl e"
  by (simp add: andthen_def)

lemma andthen_Nil: "andthen (Inr []) b = b"
  by (cases b) (simp_all add: andthen_def)

lemma andthen_Inr: "andthen (Inr x) (Inr y) = Inr (x @ y)"
  by (simp add: andthen_def)

lemma andthen_assoc: "andthen (andthen a b) c = andthen a (andthen b c)"
  by (cases a; cases b; cases c) (simp_all add: andthen_def)

lemma iterencode_dict_append:
  "iterencode_dict lvl first (ps @ qs) =
     andthen (iterencode_dict lvl first ps) (iterencode_dict lvl (first \<and> ps = []) qs)"
proof (induction ps arbitrary: first)
  case Nil
  show ?case by (simp add: andthen_Nil)
next
  case (Cons kv ps)
  show ?case
    by (cases "key_text (fst kv)") (simp_all add: Cons.IH andthen_Inl andthen_assoc)
qed

lemma utf8_encode_append: "utf8_encode (a @ b) = utf8_encode a @ utf8_encode b"
  by (simp add: utf8_encode_def)

lemma of_char_small: "of_char c < (256 :: nat)"
proof -
  have "(of_char c :: nat) mod 256 = of_char c" by simp
  then show ?thesis by (metis mod_less_divisor zero_less_numeral)
qed

lemma escape_char_small: "c < 256 \<Longrightarrow> x \<in> set (escape_char c) \<Longrightarrow> x < 256"
  by (auto simp: escape_char_def hex_digit_def split: if_splits)

lemma writable_small: "(\<And>x. x \<in> set s \<Longrightarrow> x < 256) \<Longrightarrow> writable s"
  by (force simp: writable_def list_all_iff)

lemma writable_Nil: "writable []"
  by (simp add: writable_def)

lemma writable_Cons:
  "writable (c # s) \<longleftrightarrow> (c < 0xD800 \<or> (0xE000 \<le> c \<and> c < 0x110000)) \<and> writable s"
  by (simp add: writable_def)

lemma writable_append: "writable (a @ b) \<longleftrightarrow> writable a \<and> writable b"
  by (simp add: writable_def)

lemma writable_newline_indent: "writable (newline_indent n)"
  by (simp add: writable_def newline_indent_def list_all_iff)

lemma writable_colon: "writable (ustr '': '')"
  by (simp add: writable_def ustr_def)

lemma write_chunk_writable: "writable s \<Longrightarrow> write_chunk s = Inr s"
  by (simp add: write_chunk_def)

lemma writable_timestamp: "writable (encode_basestring (ustr t))"
proof (rule writable_small)
  fix x assume "x \<in> set (encode_basestring (ustr t))"
  then have "x = 0x22 \<or> (\<exists>c \<in> set t. x \<in> set (escape_char (of_char c)))"
    by (auto simp: encode_basestring_def ustr_def)
  then show "x < 256" using escape_char_small of_char_small by fastforce
qed

text \<open>
  The output for a bundle, seen from the clock: what stands before the key
  \<open>processed_at\<close>, or the failure on the way there, does not depend on the
  value of \<open>processed_at\<close>.
\<close>

lemma json_dump_timestamp:
  "\<exists>X. \<forall>t. json_dump (b\<lparr>processed_at := t\<rparr>) =
     (case X of
        Inl e \<Rightarrow> Inl e
      | Inr pre \<Rightarrow> Inr (pre @ processed_at_field t @ utf8_encode [0x0A, 0x7D]))"
proof -
  define P where "P =
       [(KStr (ustr ''total_companies''), OInt (int (total_companies b))),
        (KStr (ustr ''complete_mvv_companies''), OInt (int (complete_mvv_companies b))),
        (KStr (ustr ''companies''), OList (map company_obj (companies b))),
        (KStr (ustr ''by_category''),
           ODict (map (\<lambda>(k, cs). (KCell k, OList (map company_obj cs))) (by_category b))),
        (KStr (ustr ''categories''), OList (map OCell (categories b)))]"
  define Y where "Y = iterencode_dict 1 True P"
  define X where "X = (case Y of Inl e \<Rightarrow> Inl e
      | Inr y \<Rightarrow> Inr (utf8_encode ([0x7B] @ newline_indent 1 @ y @ [0x2C] @ newline_indent 1)))"
  have ne: "P \<noteq> []" by (simp add: P_def)
  have obj: "bundle_obj (b\<lparr>processed_at := t\<rparr>) =
      ODict (P @ [(KStr (ustr ''processed_at''), OStr (ustr t))])" for t
    by (simp add: bundle_obj_def P_def)
  have last: "iterencode_dict lvl False [(KStr (ustr ''processed_at''), OStr (ustr t))] =
      Inr ([0x2C] @ newline_indent lvl @ encode_basestring (ustr ''processed_at'') @ ustr '': '' @
           encode_basestring (ustr t))" for t lvl
    by (simp add: key_text_def write_chunk_writable writable_Cons writable_newline_indent
        writable_timestamp writable_colon andthen_Inr)
  have enc: "iterencode 0 (bundle_obj (b\<lparr>processed_at := t\<rparr>)) =
      (case Y of Inl e \<Rightarrow> Inl e
       | Inr y \<Rightarrow> Inr ([0x7B] @ newline_indent 1 @ y @ [0x2C] @ newline_indent 1 @
           encode_basestring (ustr ''processed_at'') @ ustr '': '' @
           encode_basestring (ustr t) @ [0x0A, 0x7D]))" for t
  proof -
    have "iterencode 0 (bundle_obj (b\<lparr>processed_at := t\<rparr>)) =
        andthen (Inr ([0x7B] @ newline_indent 1))
          (andthen (andthen Y
             (Inr ([0x2C] @ newline_indent 1 @ encode_basestring (ustr ''processed_at'') @
                   ustr '': '' @ encode_basestring (ustr t))))
             (Inr (newline_indent 0 @ [0x7D])))"
      using ne
      by (simp add: obj iterencode_dict_append Y_def last write_chunk_writable writable_Cons
          writable_newline_indent writable_Nil writable_append key_text_def writable_timestamp
          writable_colon andthen_Inr)
    moreover have "newline_indent 0 = [0x0A]" by (simp add: newline_indent_def)
    ultimately show ?thesis by (cases Y) (simp_all add: andthen_def)
  qed
  have "json_dump (b\<lparr>processed_at := t\<rparr>) =
     (case X of
        Inl e \<Rightarrow> Inl e
      | Inr pre \<Rightarrow> Inr (pre @ processed_at_field t @ utf8_encode [0x0A, 0x7D]))" for t
    by (cases Y)
      (simp_all add: json_dump_def enc X_def processed_at_field_def utf8_encode_def)
  then show ?thesis by blast
qed

lemma get_analysis_ready_data_clock:
  "get_analysis_ready_data self t1 =
     (case get_analysis_ready_data self t2 of
        Inl e \<Rightarrow> Inl e | Inr b \<Rightarrow> Inr (b\<lparr>processed_at := t1\<rparr>))"
  by (simp add: get_analysis_ready_data_def Let_def split: option.splits sum.splits)

lemma run_pipeline_clock:
  "run_pipeline csv t1 dump =
     (case run_pipeline csv t2 Inr of
        Inl e \<Rightarrow> Inl e | Inr b \<Rightarrow> dump (b\<lparr>processed_at := t1\<rparr>))"
proof -
  have 2: "save_processed_data dump self t1 =
     (case get_analysis_ready_data self t2 of
        Inl e \<Rightarrow> Inl e | Inr b \<Rightarrow> dump (b\<lparr>processed_at := t1\<rparr>))" for self
    unfolding save_processed_data_def
    by (subst get_analysis_ready_data_clock[of self t1 t2]) (simp split: sum.splits)
  have s: "save_processed_data Inr self t2 = get_analysis_ready_data self t2" for self
    by (simp add: save_processed_data_def split: sum.splits)
  show ?thesis
    unfolding run_pipeline_def by (simp add: 2 s split: sum.splits)
qed

text \<open>
  C9. Two runs on the same input, at the times \<open>t1\<close> and \<open>t2\<close>, fail in the
  same way or write the same bytes except for the value of \<open>processed_at\<close>:
  both outputs are the same bytes \<open>pre\<close>, then the key \<open>processed_at\<close> with
  the time of the run as its value, then the closing line.
\<close>

theorem clock_only_in_processed_at:
  "(run_pipeline csv t2 json_dump = Inl e \<longrightarrow> run_pipeline csv t1 json_dump = Inl e) \<and>
   (run_pipeline csv t2 json_dump = Inr out2 \<longrightarrow>
      (\<exists>pre. out2 = pre @ processed_at_field t2 @ utf8_encode [0x0A, 0x7D] \<and>
             run_pipeline csv t1 json_dump =
               Inr (pre @ processed_at_field t1 @ utf8_encode [0x0A, 0x7D])))"
proof (cases "run_pipeline csv t2 Inr")
  case (Inl e0)
  then have "run_pipeline csv t json_dump = Inl e0" for t
    using run_pipeline_clock[of csv t json_dump t2] by simp
  then show ?thesis by simp
next
  case (Inr b)
  then have r: "run_pipeline csv t json_dump = json_dump (b\<lparr>processed_at := t\<rparr>)" for t
    using run_pipeline_clock[of csv t json_dump t2] by simp
  from json_dump_timestamp[of b] obtain X where
    x: "\<And>t. json_dump (b\<lparr>processed_at := t\<rparr>) =
     (case X of
        Inl e \<Rightarrow> Inl e
      | Inr pre \<Rightarrow> Inr (pre @ processed_at_field t @ utf8_encode [0x0A, 0x7D]))"
    by blast
  show ?thesis by (cases X) (simp_all add: r x)
qed

theorem clock_only_in_processed_at_witness:
  "\<exists>pre. run_pipeline (Inr small_frame) ''1999-12-31T23:59:59'' json_dump =
           Inr (pre @ processed_at_field ''1999-12-31T23:59:59'' @ utf8_encode [0x0A, 0x7D]) \<and>
         run_pipeline (Inr small_frame) ''2026-01-01T00:00:00'' json_dump =
           Inr (pre @ processed_at_field ''2026-01-01T00:00:00'' @ utf8_encode [0x0A, 0x7D])"
proof -
  have "\<not> isl (run_pipeline (Inr small_frame) ''1999-12-31T23:59:59'' json_dump)"
    by (simp add: run_defs json_defs list_all_iff)
  then obtain out2 where
    e: "run_pipeline (Inr small_frame) ''1999-12-31T23:59:59'' json_dump = Inr out2"
    by (cases "run_pipeline (Inr small_frame) ''1999-12-31T23:59:59'' json_dump") auto
  from clock_only_in_processed_at[of "Inr small_frame" "''1999-12-31T23:59:59''" UnicodeEncodeError
      "''2026-01-01T00:00:00''" out2] e
  show ?thesis by auto
qed

subsection \<open>The missing column\<close>

lemma iterrows_lacks_column:
  assumes "key \<notin> set (columns df)" and "r \<in> set (iterrows df)"
  shows "map_of r key = None"
proof -
  from assms(2) obtain cs where "r = zip (columns df) cs" by (auto simp: iterrows_def)
  then have "fst ` set r \<subseteq> set (columns df)" by (auto dest: set_zip_leftD)
  then show ?thesis using assms(1) by (auto simp: map_of_eq_None_iff)
qed

text \<open>
  C5. On a frame without a \<open>values\<close> column the run does not complete:
  \<open>load_data\<close> raises (the statistics index the column directly), the
  pipeline fails and \<open>main\<close> returns 1. The row transformer on its own
  would have given every company of such a frame empty values and a false
  \<open>has_complete_mvv\<close>.
\<close>

theorem missing_values_column_aborts:
  assumes "''values'' \<notin> set (columns df)"
  shows "(\<exists>e. load_data self (Inr df) = Inl e) \<and>
         (\<exists>e. run_pipeline (Inr df) now dump = Inl e) \<and>
         main (Inr df) now dump = 1 \<and>
         (\<forall>r \<in> set (iterrows df). \<forall>idx c. process_row idx r = Inr c \<longrightarrow>
            vals c = [] \<and> \<not> has_complete_mvv c)"
proof -
  have g: "getitem_column df ''values'' = Inl (KeyError (CStr (ustr ''values'')))"
    using assms by (simp add: getitem_column_def)
  have p: "\<exists>e. print_basic_stats df = Inl e"
    unfolding print_basic_stats_def using g by (simp split: sum.splits)
  then have 1: "\<exists>e. load_data self (Inr df) = Inl e" for self
    by (auto simp: load_data_def)
  obtain e0 where "load_data MVVDataProcessor (Inr df) = Inl e0"
    using 1[of MVVDataProcessor] by blast
  then have 2: "\<exists>e. run_pipeline (Inr df) now dump = Inl e"
    by (simp add: run_pipeline_def)
  then have 3: "main (Inr df) now dump = 1" by (auto simp: main_def)
  have 4: "\<forall>r \<in> set (iterrows df). \<forall>idx c. process_row idx r = Inr c \<longrightarrow>
            vals c = [] \<and> \<not> has_complete_mvv c"
  proof (intro ballI allI impI)
    fix r idx c assume r: "r \<in> set (iterrows df)" and c: "process_row idx r = Inr c"
    have "row_get r ''values'' (CStr []) = CStr []"
      using iterrows_lacks_column[OF assms r] by (simp add: row_get_def)
    then have "clean_text (row_get r ''values'' (CStr [])) = []" by (simp add: clean_text_def)
    then show "vals c = [] \<and> \<not> has_complete_mvv c"
      using process_row_fields(3,4)[OF c] by simp
  qed
  from 1 2 3 4 show ?thesis by blast
qed

theorem missing_values_column_aborts_witness:
  "load_data MVVDataProcessor (Inr frame_without_values) = Inl (KeyError (CStr (ustr ''values''))) \<and>
   main (Inr frame_without_values) ''t'' (Inr :: analysis_bundle \<Rightarrow> error + analysis_bundle) = 1"
proof -
  have h: "''values'' \<notin> set (columns frame_without_values)"
    by (simp add: frame_without_values_def)
  have l: "load_data MVVDataProcessor (Inr frame_without_values) = Inl (KeyError (CStr (ustr ''values'')))"
    by (simp add: load_data_def print_basic_stats_def getitem_column_def frame_without_values_def)
  from missing_values_column_aborts[OF h, of MVVDataProcessor "''t''" "Inr :: analysis_bundle \<Rightarrow> error + analysis_bundle"] l
  show ?thesis by simp
qed

end
